theory Spec2Isabelle
  imports Complex_Main "HOL-Library.Log_Nat"
begin

section \<open>OS RACER: the simulation kernel of \<^verbatim>\<open>src/main.cpp\<close>\<close>

text \<open>
  The development embeds the physics thread, the boundary and collision detector, the
  track tables and the one-shot input flags of \<^verbatim>\<open>main.cpp\<close>.

  Numbers: a finite \<^verbatim>\<open>float\<close> or \<^verbatim>\<open>double\<close> value is the \<^typ>\<open>real\<close> number it denotes,
  and every arithmetic operation of the source is the exact operation followed by the
  rounding of its format, binary32 for \<^verbatim>\<open>float\<close> and binary64 for \<^verbatim>\<open>double\<close>, to the
  nearest value with ties to the even significand. Each \<^verbatim>\<open>float\<close> operation is rounded
  on its own (no wider intermediate format and no fused multiply-add). A decimal literal
  \<^verbatim>\<open>0.18f\<close> of the source is \<open>f32 0.18\<close>; the literals that are binary32 values as
  written (integers, \<^verbatim>\<open>0.5f\<close>) are written as they are. Overflow, infinities, NaN and
  the sign of zero are not modelled: the rounding has no largest exponent. Comparisons,
  negation, \<^verbatim>\<open>max\<close> and \<^verbatim>\<open>min\<close> are exact. The \<^verbatim>\<open>int\<close> steering value is an
  \<^typ>\<open>int\<close>; the \<^verbatim>\<open>int\<close> segment cursor, which only counts upwards from zero through a
  short vector, is a \<^typ>\<open>nat\<close>.

  Threads: the globals of the source are the fields of one record, \<open>kernel\<close>. A function
  of the physics thread takes the record and returns it updated. The writes of the other
  threads are not part of these functions; where a statement below speaks of several
  iterations it says which fields the other threads may have changed in between.
\<close>

subsection \<open>Binary floating point\<close>

text \<open>
  \<open>ilog2 x\<close> is the exponent of a positive \<open>x\<close>: \<open>2 powi ilog2 x \<le> x < 2 powi (ilog2 x + 1)\<close>.
  \<open>rne\<close> rounds a real to the nearest integer, a tie to the even one. \<open>round_to p emin\<close>
  rounds to the format with \<open>p\<close> significand bits and smallest normal exponent \<open>emin\<close>:
  the quantum of \<open>x\<close> is \<open>2 powi (e - p + 1)\<close> for the exponent \<open>e\<close> of \<open>x\<close>, and not
  below that of the subnormal numbers.
\<close>

definition ilog2 :: "real \<Rightarrow> int" where
  "ilog2 x = (if 1 \<le> x then bitlen \<lfloor>x\<rfloor> - 1 else - bitlen (\<lceil>1 / x\<rceil> - 1))"

definition rne :: "real \<Rightarrow> int" where
  "rne m =
     (let f = \<lfloor>m\<rfloor>; r = m - of_int f
      in if r < 1 / 2 then f else if 1 / 2 < r then f + 1 else if even f then f else f + 1)"

definition round_to :: "nat \<Rightarrow> int \<Rightarrow> real \<Rightarrow> real" where
  "round_to p emin x =
     (if x = 0 then 0
      else (let e = max (ilog2 \<bar>x\<bar>) emin; q = 2 powi (e - int p + 1)
            in of_int (rne (x / q)) * q))"

definition f32 :: "real \<Rightarrow> real" where "f32 = round_to 24 (- 126)"

definition f64 :: "real \<Rightarrow> real" where "f64 = round_to 53 (- 1022)"

text \<open>The operations on \<^verbatim>\<open>float\<close> operands, and those on \<^verbatim>\<open>double\<close> operands.\<close>

definition fadd :: "real \<Rightarrow> real \<Rightarrow> real" where "fadd x y = f32 (x + y)"
definition fsub :: "real \<Rightarrow> real \<Rightarrow> real" where "fsub x y = f32 (x - y)"
definition fmul :: "real \<Rightarrow> real \<Rightarrow> real" where "fmul x y = f32 (x * y)"
definition fdiv :: "real \<Rightarrow> real \<Rightarrow> real" where "fdiv x y = f32 (x / y)"
definition dadd :: "real \<Rightarrow> real \<Rightarrow> real" where "dadd x y = f64 (x + y)"
definition dsub :: "real \<Rightarrow> real \<Rightarrow> real" where "dsub x y = f64 (x - y)"

text \<open>The reals that are values of the two formats.\<close>

definition is_f32 :: "real \<Rightarrow> bool" where "is_f32 x = (f32 x = x)"
definition is_f64 :: "real \<Rightarrow> bool" where "is_f64 x = (f64 x = x)"

text \<open>The reals that are integer multiples of \<open>2 powi k\<close>.\<close>

definition on_grid :: "int \<Rightarrow> real \<Rightarrow> bool" where
  "on_grid k x = (of_int \<lfloor>x / 2 powi k\<rfloor> * 2 powi k = x)"

subsection \<open>Kernel physics parameter table (lines 46-69)\<close>

definition PHYSICS_HZ :: real where "PHYSICS_HZ = f32 240"
definition DELTA_T :: real where "DELTA_T = fdiv 1 PHYSICS_HZ"
definition ROAD_WIDTH_LIMIT :: real where "ROAD_WIDTH_LIMIT = f32 1"
definition PLAYER_HALF_WIDTH :: real where "PLAYER_HALF_WIDTH = f32 0.18"
definition MAX_SPEED :: real where "MAX_SPEED = f32 50"
definition ACCELERATION :: real where "ACCELERATION = f32 17"
definition DECELERATION :: real where "DECELERATION = f32 20"
definition FRICTION :: real where "FRICTION = f32 0.9999"
definition LATERAL_FACTOR :: real where "LATERAL_FACTOR = f32 0.0004"
definition STEER_COMPENSATION :: real where "STEER_COMPENSATION = f32 0.002"
definition HEADING_TURN_SPEED :: real where "HEADING_TURN_SPEED = f32 0.4"
definition HEADING_DRIFT_FACTOR :: real where "HEADING_DRIFT_FACTOR = f32 0.004"

subsection \<open>Data model (lines 79-114, 128-149)\<close>

datatype GameState =
  BOOT_MENU | MAP_SELECT | KERNEL_RUNNING | GAME_WIN | GAME_OVER | SYSTEM_HALT

record PlayerPCB =
  fX_Register :: real
  fSpeed :: real
  fDistance :: real
  fCurvature :: real
  fPlayerCurvature :: real
  fHeadingAngle :: real
  bCrashed :: bool
  nSteerState :: int

text \<open>\<^verbatim>\<open>PlayerPCB()\<close>: the member initialisers; \<^verbatim>\<open>Reset\<close> assigns it to the player.\<close>

definition PlayerPCB_default :: PlayerPCB where
  "PlayerPCB_default =
     \<lparr>fX_Register = 0, fSpeed = 0, fDistance = 0, fCurvature = 0, fPlayerCurvature = 0,
      fHeadingAngle = 0, bCrashed = False, nSteerState = 0\<rparr>"

record Obstacle =
  fSegDistance :: real
  fOffsetX :: real
  fWidth :: real

text \<open>
  The fields \<^verbatim>\<open>fCurvature\<close> and \<^verbatim>\<open>fDistance\<close> of \<^verbatim>\<open>TrackSegment\<close> carry the suffix
  \<open>_seg\<close>: the player record has fields of the same names.
\<close>

record TrackSegment =
  fCurvature_seg :: real
  fDistance_seg :: real
  vecObstacles :: "Obstacle list"

record kernel =
  currentState :: GameState
  player :: PlayerPCB
  vecTrack :: "TrackSegment list"
  fTotalTrackLength :: real
  input_steer :: int
  input_accel :: bool
  input_brake :: bool
  warnObstacle :: bool
  warnObstacleDist :: real
  warnObstacleOffsetX :: real
  sound_crash :: bool
  sound_gameover :: bool
  sound_win :: bool

subsection \<open>Track tables (lines 732-792)\<close>

definition seg :: "real \<Rightarrow> real \<Rightarrow> TrackSegment" where
  "seg c d = \<lparr>fCurvature_seg = c, fDistance_seg = d, vecObstacles = []\<rparr>"

definition obst :: "real \<Rightarrow> real \<Rightarrow> real \<Rightarrow> Obstacle" where
  "obst d x wd = \<lparr>fSegDistance = d, fOffsetX = x, fWidth = wd\<rparr>"

text \<open>\<^verbatim>\<open>t[i].vecObstacles.push_back(o)\<close>, for an index inside the vector.\<close>

definition push_obstacle :: "nat \<Rightarrow> Obstacle \<Rightarrow> TrackSegment list \<Rightarrow> TrackSegment list" where
  "push_obstacle i ob t = t[i := (t ! i)\<lparr>vecObstacles := vecObstacles (t ! i) @ [ob]\<rparr>]"

definition BuildTrackData :: "int \<Rightarrow> TrackSegment list" where
  "BuildTrackData mapid =
     (if mapid = 1 then
        [seg 0 80, seg (f32 0.6) 250, seg (- f32 0.6) 250, seg 0 100, seg (f32 0.8) 200,
         seg 0 120]
      else if mapid = 2 then
        push_obstacle 5 (obst 80 (f32 0.6) (f32 0.3))
          (push_obstacle 4 (obst 70 (- 0.5) (f32 0.4))
            (push_obstacle 4 (obst 20 (f32 0.4) (f32 0.3))
              [seg 0 100, seg (f32 0.7) 150, seg (- 0.5) 150, seg (f32 0.9) 200, seg 0 100,
               seg (- f32 0.8) 180, seg (f32 0.6) 200, seg 0 150, seg 1 120, seg 0 100]))
      else if mapid = 3 then
        push_obstacle 7 (obst 70 (f32 0.3) (f32 0.2))
          (push_obstacle 5 (obst 100 (- f32 0.4) (f32 0.4))
            (push_obstacle 3 (obst 40 0 0.5)
              (push_obstacle 1 (obst 150 (f32 0.6) (f32 0.3))
                (push_obstacle 1 (obst 50 (- f32 0.6) (f32 0.3))
                  [seg 0 100, seg (f32 0.8) 200, seg (- f32 0.6) 150, seg (f32 0.6) 180,
                   seg (- f32 0.8) 200, seg 0.5 150, seg (- 0.5) 150, seg (f32 0.8) 200,
                   seg (- f32 0.8) 200, seg 0 100]))))
      else [])"

text \<open>
  \<^verbatim>\<open>LoadMap\<close>: the track is rebuilt and its length summed from \<open>0\<close>, segment by segment.
  A negative literal \<^verbatim>\<open>-0.6f\<close> is the negation of \<^verbatim>\<open>0.6f\<close>.
  The overview polyline and the map id serve the display only and are left out.
\<close>

definition LoadMap :: "int \<Rightarrow> kernel \<Rightarrow> kernel" where
  "LoadMap mapid w =
     (let t = BuildTrackData mapid
      in w\<lparr>vecTrack := t, fTotalTrackLength := foldl (\<lambda>a s. fadd a (fDistance_seg s)) 0 t\<rparr>)"

subsection \<open>Boundary and collision (lines 859-906)\<close>

text \<open>The five assignments both detectors make on a crash (lines 865-869 and 896-900).\<close>

definition crash :: "kernel \<Rightarrow> kernel" where
  "crash w =
     w\<lparr>player := (player w)\<lparr>bCrashed := True, fSpeed := 0\<rparr>,
       currentState := GAME_OVER, sound_crash := True, sound_gameover := True\<rparr>"

definition EnforceBoundaryProtection :: "kernel \<Rightarrow> kernel" where
  "EnforceBoundaryProtection w =
     (let playerLeft = fsub (fX_Register (player w)) PLAYER_HALF_WIDTH;
          playerRight = fadd (fX_Register (player w)) PLAYER_HALF_WIDTH
      in if playerLeft \<le> - ROAD_WIDTH_LIMIT \<or> playerRight \<ge> ROAD_WIDTH_LIMIT
         then (if \<not> bCrashed (player w) then crash w else w)
         else w)"

text \<open>
  The segment cursor of the collision detector (lines 878-885): \<open>pos\<close>, the running
  \<open>fSegStartDistance\<close> and \<open>section\<close>.
\<close>

function collision_cursor ::
  "TrackSegment list \<Rightarrow> real \<Rightarrow> real \<Rightarrow> nat \<Rightarrow> real \<times> real \<times> nat" where
  "collision_cursor t pos fSegStartDistance section =
     (if section < length t \<and> pos \<ge> fDistance_seg (t ! section)
      then collision_cursor t (fsub pos (fDistance_seg (t ! section)))
             (fadd fSegStartDistance (fDistance_seg (t ! section))) (section + 1)
      else (pos, fSegStartDistance, section))"
  by pat_completeness auto
termination
  by (relation "measure (\<lambda>(t, pos, st, section). length t - section)") auto

declare collision_cursor.simps [simp del]

text \<open>The test of one obstacle (lines 890-895): the longitudinal window, then the overlap.\<close>

definition obstacle_hit :: "PlayerPCB \<Rightarrow> real \<Rightarrow> Obstacle \<Rightarrow> bool" where
  "obstacle_hit p fDistInSeg obs =
     (if fDistInSeg \<ge> fsub (fSegDistance obs) 0.5 \<and> fDistInSeg \<le> fadd (fSegDistance obs) 0.5
      then (let fPlayerLeft = fsub (fX_Register p) PLAYER_HALF_WIDTH;
                fPlayerRight = fadd (fX_Register p) PLAYER_HALF_WIDTH;
                fObsLeft = fsub (fOffsetX obs) (fdiv (fWidth obs) 2);
                fObsRight = fadd (fOffsetX obs) (fdiv (fWidth obs) 2)
            in max fPlayerLeft fObsLeft < min fPlayerRight fObsRight)
      else False)"

text \<open>The loop over the obstacles of the segment (lines 889-904), which returns at a hit.\<close>

fun obstacle_loop :: "kernel \<Rightarrow> real \<Rightarrow> Obstacle list \<Rightarrow> kernel" where
  "obstacle_loop w fDistInSeg [] = w"
| "obstacle_loop w fDistInSeg (obs # rest) =
     (if obstacle_hit (player w) fDistInSeg obs then crash w
      else obstacle_loop w fDistInSeg rest)"

definition CheckObstacleCollision :: "kernel \<Rightarrow> kernel" where
  "CheckObstacleCollision w =
     (if bCrashed (player w) \<or> currentState w \<noteq> KERNEL_RUNNING then w
      else (case collision_cursor (vecTrack w) (fDistance (player w)) 0 0 of
              (pos, fSegStartDistance, section) \<Rightarrow>
                if section < length (vecTrack w)
                then obstacle_loop w pos (vecObstacles (vecTrack w ! section))
                else w))"

subsection \<open>Physics thread (lines 950-1052)\<close>

text \<open>
  The block under the player mutex (lines 964-1008) is a sequence of statements; each
  group of statements is one function here, taking the \<^verbatim>\<open>double\<close> step \<open>dt\<close> of line
  952, and \<open>physics_integrate\<close> composes the groups in the order of the source. The
  block uses the step as \<^verbatim>\<open>(float)dt\<close>, which is \<open>f32 dt\<close>.
\<close>

text \<open>Lines 965-966.\<close>

definition read_steer :: "kernel \<Rightarrow> kernel" where
  "read_steer w = w\<lparr>player := (player w)\<lparr>nSteerState := input_steer w\<rparr>\<rparr>"

text \<open>Lines 968-974: the speed before the clamp; accelerate or apply friction, then
  brake, or force zero when crashed.\<close>

definition raw_speed :: "real \<Rightarrow> kernel \<Rightarrow> real" where
  "raw_speed dt w =
     (if \<not> bCrashed (player w)
      then (let sa = (if input_accel w then fadd (fSpeed (player w)) (fmul ACCELERATION (f32 dt))
                      else fmul (fSpeed (player w)) FRICTION)
            in if input_brake w then fsub sa (fmul DECELERATION (f32 dt)) else sa)
      else 0)"

text \<open>Lines 968-976: the new speed, clamped at line 976.\<close>

definition update_speed :: "real \<Rightarrow> kernel \<Rightarrow> kernel" where
  "update_speed dt w =
     w\<lparr>player := (player w)\<lparr>fSpeed := max (- 15) (min MAX_SPEED (raw_speed dt w))\<rparr>\<rparr>"

text \<open>Line 977.\<close>

definition advance_distance :: "real \<Rightarrow> kernel \<Rightarrow> kernel" where
  "advance_distance dt w =
     w\<lparr>player := (player w)\<lparr>fDistance :=
        fadd (fDistance (player w)) (fmul (fSpeed (player w)) (f32 dt))\<rparr>\<rparr>"

text \<open>Lines 979-983.\<close>

definition check_win :: "kernel \<Rightarrow> kernel" where
  "check_win w =
     (if fDistance (player w) \<ge> fTotalTrackLength w
      then w\<lparr>player := (player w)\<lparr>fDistance := fTotalTrackLength w\<rparr>,
             currentState := GAME_WIN, sound_win := True\<rparr>
      else w)"

text \<open>The segment cursor of the integrator (lines 985-991): \<open>pos\<close> and \<open>section\<close>.\<close>

function physics_cursor :: "TrackSegment list \<Rightarrow> real \<Rightarrow> nat \<Rightarrow> real \<times> nat" where
  "physics_cursor t pos section =
     (if section < length t \<and> pos \<ge> fDistance_seg (t ! section)
      then physics_cursor t (fsub pos (fDistance_seg (t ! section))) (section + 1)
      else (pos, section))"
  by pat_completeness auto
termination
  by (relation "measure (\<lambda>(t, pos, section). length t - section)") auto

declare physics_cursor.simps [simp del]

text \<open>Lines 985-993: the nominal curvature of the active segment, \<open>0\<close> past the end.\<close>

definition targetCurv :: "kernel \<Rightarrow> real" where
  "targetCurv w =
     (case physics_cursor (vecTrack w) (fDistance (player w)) 0 of
        (pos, section) \<Rightarrow>
          if section < length (vecTrack w) then fCurvature_seg (vecTrack w ! section) else 0)"

text \<open>Lines 995-996.\<close>

definition update_curvature :: "real \<Rightarrow> kernel \<Rightarrow> kernel" where
  "update_curvature dt w =
     (let p = player w;
          c = fadd (fCurvature p) (fmul (fmul (fsub (targetCurv w) (fCurvature p)) (f32 dt)) 3)
      in w\<lparr>player := p\<lparr>fCurvature := c,
              fPlayerCurvature :=
                fadd (fPlayerCurvature p)
                  (fmul (fmul (fmul c (f32 dt)) (fSpeed p)) (f32 0.01))\<rparr>\<rparr>)"

text \<open>Lines 998-1003.\<close>

definition update_lateral :: "real \<Rightarrow> kernel \<Rightarrow> kernel" where
  "update_lateral dt w =
     (let p = player w;
          steerInput = fmul (f32 (of_int (nSteerState p))) 0.5;
          fInertiaSlide = fmul (fmul (- fCurvature p) (fSpeed p)) LATERAL_FACTOR;
          compensation = fmul steerInput STEER_COMPENSATION;
          headingDrift = fmul (fmul (fHeadingAngle p) (fSpeed p)) HEADING_DRIFT_FACTOR;
          fNetForce = fmul (fadd (fadd fInertiaSlide compensation) headingDrift) 40
      in w\<lparr>player := p\<lparr>fX_Register := fadd (fX_Register p) (fmul fNetForce (f32 dt))\<rparr>\<rparr>)"

text \<open>Lines 1005-1007.\<close>

definition update_heading :: "real \<Rightarrow> kernel \<Rightarrow> kernel" where
  "update_heading dt w =
     (let p = player w
      in w\<lparr>player := p\<lparr>fHeadingAngle :=
             (if nSteerState p = - 1
              then fsub (fHeadingAngle p) (fmul HEADING_TURN_SPEED (f32 dt))
              else if nSteerState p = 1
              then fadd (fHeadingAngle p) (fmul HEADING_TURN_SPEED (f32 dt))
              else fmul (fHeadingAngle p) (f32 0.95))\<rparr>\<rparr>)"

text \<open>
  Lines 964-1008. The state is tested once, on entry: the statements after
  \<open>check_win\<close> run in the same step also when it has just left \<open>KERNEL_RUNNING\<close>.
\<close>

definition physics_integrate :: "real \<Rightarrow> kernel \<Rightarrow> kernel" where
  "physics_integrate dt w =
     (if currentState w = KERNEL_RUNNING
      then update_heading dt (update_lateral dt (update_curvature dt
             (check_win (advance_distance dt (update_speed dt (read_steer w))))))
      else w)"

text \<open>
  The obstacle warning (lines 1015-1046). The inner loop breaks at the first obstacle
  ahead of the player and within \<open>WARNING_RANGE\<close>; the outer loop stops once one is found.
\<close>

definition WARNING_RANGE :: real where "WARNING_RANGE = f32 50"

fun warning_obstacles :: "real \<Rightarrow> real \<Rightarrow> Obstacle list \<Rightarrow> (real \<times> real) option" where
  "warning_obstacles playerDist acc [] = None"
| "warning_obstacles playerDist acc (obs # rest) =
     (let globalObsDist = fadd acc (fSegDistance obs);
          delta = fsub globalObsDist playerDist
      in if globalObsDist > playerDist \<and> delta \<le> WARNING_RANGE
         then Some (delta, fOffsetX obs)
         else warning_obstacles playerDist acc rest)"

fun warning_segments :: "real \<Rightarrow> real \<Rightarrow> TrackSegment list \<Rightarrow> (real \<times> real) option" where
  "warning_segments playerDist acc [] = None"
| "warning_segments playerDist acc (sg # rest) =
     (case warning_obstacles playerDist acc (vecObstacles sg) of
        Some found \<Rightarrow> Some found
      | None \<Rightarrow> warning_segments playerDist (fadd acc (fDistance_seg sg)) rest)"

definition update_warning :: "kernel \<Rightarrow> kernel" where
  "update_warning w =
     (if currentState w = KERNEL_RUNNING
      then (case warning_segments (fDistance (player w)) 0 (vecTrack w) of
              Some (foundDistDelta, foundOffsetX) \<Rightarrow>
                w\<lparr>warnObstacle := True, warnObstacleDist := foundDistDelta,
                  warnObstacleOffsetX := foundOffsetX\<rparr>
            | None \<Rightarrow> w\<lparr>warnObstacle := False\<rparr>)
      else w\<lparr>warnObstacle := False\<rparr>)"

text \<open>One pass through the body of the inner loop (lines 962-1046).\<close>

definition physics_iteration :: "real \<Rightarrow> kernel \<Rightarrow> kernel" where
  "physics_iteration dt w =
     update_warning (CheckObstacleCollision (EnforceBoundaryProtection (physics_integrate dt w)))"

text \<open>
  The inner loop (lines 961-1049) on the \<^verbatim>\<open>double\<close> accumulator. When the rounded
  difference never falls below the step (a step that is not positive, or an accumulator
  so large that subtracting the step does not change it) the loop of the source does not
  end; the result \<open>None\<close> stands for that.
\<close>

partial_function (option) physics_loop :: "real \<Rightarrow> real \<Rightarrow> kernel \<Rightarrow> (real \<times> kernel) option" where
  "physics_loop dt accumulator w =
     (if accumulator \<ge> dt
      then physics_loop dt (dsub accumulator dt) (physics_iteration dt w)
      else Some (accumulator, w))"

declare physics_loop.simps [code]

text \<open>
  One pass of the outer loop (lines 957-1049): \<open>elapsed\<close> is the wall time measured at
  lines 957-958, and the step is \<open>DELTA_T\<close> converted to \<^verbatim>\<open>double\<close> (line 952), which
  is the same real number.
\<close>

definition PhysicsThreadProc_pass :: "real \<Rightarrow> real \<times> kernel \<Rightarrow> (real \<times> kernel) option" where
  "PhysicsThreadProc_pass elapsed st =
     (case st of (accumulator, w) \<Rightarrow> physics_loop DELTA_T (dadd accumulator elapsed) w)"

subsection \<open>The writes of the other threads to the kernel record\<close>

text \<open>The initial values of the globals (lines 80-149).\<close>

definition kernel_boot :: kernel where
  "kernel_boot =
     \<lparr>currentState = BOOT_MENU, player = PlayerPCB_default, vecTrack = [],
      fTotalTrackLength = 0, input_steer = 0, input_accel = False, input_brake = False,
      warnObstacle = False, warnObstacleDist = 0, warnObstacleOffsetX = 0,
      sound_crash = False, sound_gameover = False, sound_win = False\<rparr>"

text \<open>The render thread starts a race from the map menu (lines 1120-1124).\<close>

definition start_race :: "int \<Rightarrow> kernel \<Rightarrow> kernel" where
  "start_race nSelectedMap w =
     (LoadMap nSelectedMap w)\<lparr>player := PlayerPCB_default, currentState := KERNEL_RUNNING\<rparr>"

text \<open>
  The render thread acknowledges the end of a race, in \<open>GAME_OVER\<close> (lines 1474-1477)
  and in \<open>GAME_WIN\<close> (lines 1576-1580): the reset of the player.
\<close>

definition acknowledge :: "kernel \<Rightarrow> kernel" where
  "acknowledge w = w\<lparr>player := PlayerPCB_default, currentState := MAP_SELECT\<rparr>"

text \<open>The stores of the input thread to the three control registers (lines 918-920).\<close>

definition store_controls :: "int \<times> bool \<times> bool \<Rightarrow> kernel \<Rightarrow> kernel" where
  "store_controls c w =
     (case c of (steer, accel, brake) \<Rightarrow>
        w\<lparr>input_steer := steer, input_accel := accel, input_brake := brake\<rparr>)"

text \<open>
  A run of the physics thread: before each iteration the input thread has stored the
  controls the list gives for it.
\<close>

fun physics_run :: "real \<Rightarrow> (int \<times> bool \<times> bool) list \<Rightarrow> kernel \<Rightarrow> kernel" where
  "physics_run dt [] w = w"
| "physics_run dt (c # cs) w = physics_run dt cs (physics_iteration dt (store_controls c w))"

subsection \<open>Input thread and one-shot flags (lines 131-139, 911-945)\<close>

text \<open>
  The six keys with an edge flag. For a key \<open>k\<close>, \<open>lastKey s k\<close> is the local
  \<^verbatim>\<open>lastSpace\<close>, \<^verbatim>\<open>lastUp\<close>, \<^verbatim>\<open>lastDown\<close>, \<^verbatim>\<open>last1\<close>, \<^verbatim>\<open>last2\<close> or \<^verbatim>\<open>last3\<close> of the input
  thread, and \<open>input_edge s k\<close> is the atomic \<^verbatim>\<open>input_space_edge\<close>, \<^verbatim>\<open>input_up_edge\<close>,
  \<^verbatim>\<open>input_down_edge\<close>, \<^verbatim>\<open>input_1_edge\<close>, \<^verbatim>\<open>input_2_edge\<close> or \<^verbatim>\<open>input_3_edge\<close>.
\<close>

datatype edge_key = VK_SPACE | VK_UP | VK_DOWN | KEY_1 | KEY_2 | KEY_3

record input_registers =
  lastKey :: "edge_key \<Rightarrow> bool"
  input_edge :: "edge_key \<Rightarrow> bool"
  input_escape :: bool

text \<open>The initial values (lines 131-139 and 912-913).\<close>

definition registers_boot :: input_registers where
  "registers_boot =
     \<lparr>lastKey = (\<lambda>k. False), input_edge = (\<lambda>k. False), input_escape = False\<rparr>"

text \<open>
  One key of one iteration (the pattern of lines 922-924, repeated to line 939): \<open>now\<close>
  is bit \<open>0x8000\<close> of \<^verbatim>\<open>GetAsyncKeyState\<close> for the key.
\<close>

definition sample_key :: "edge_key \<Rightarrow> bool \<Rightarrow> input_registers \<Rightarrow> input_registers" where
  "sample_key k now s =
     (let s1 = (if now \<and> \<not> lastKey s k then s\<lparr>input_edge := (input_edge s)(k := True)\<rparr>
                else s)
      in s1\<lparr>lastKey := (lastKey s1)(k := now)\<rparr>)"

text \<open>
  Lines 922-941 of one iteration of the input thread: \<open>down k\<close> is bit \<open>0x8000\<close> read
  for key \<open>k\<close>, and \<open>escBit\<close> is bit \<open>1\<close> read for \<^verbatim>\<open>VK_ESCAPE\<close> (line 941), which
  sets \<^verbatim>\<open>input_escape\<close> without a \<open>last\<close> variable.
\<close>

definition InputThreadProc_edges ::
  "(edge_key \<Rightarrow> bool) \<Rightarrow> bool \<Rightarrow> input_registers \<Rightarrow> input_registers" where
  "InputThreadProc_edges down escBit s =
     (let s1 = sample_key VK_SPACE (down VK_SPACE) s;
          s2 = sample_key VK_UP (down VK_UP) s1;
          s3 = sample_key VK_DOWN (down VK_DOWN) s2;
          s4 = sample_key KEY_1 (down KEY_1) s3;
          s5 = sample_key KEY_2 (down KEY_2) s4;
          s6 = sample_key KEY_3 (down KEY_3) s5
      in if escBit then s6\<lparr>input_escape := True\<rparr> else s6)"

text \<open>The seven one-shot flags, and \<^verbatim>\<open>flag.exchange(false)\<close> of the consumer, which
  returns the value it found (lines 1096-1126, 1474-1478, 1576-1581).\<close>

datatype one_shot = Edge edge_key | Escape

fun flag_value :: "input_registers \<Rightarrow> one_shot \<Rightarrow> bool" where
  "flag_value s (Edge k) = input_edge s k"
| "flag_value s Escape = input_escape s"

fun exchange_false :: "one_shot \<Rightarrow> input_registers \<Rightarrow> bool \<times> input_registers" where
  "exchange_false (Edge k) s = (input_edge s k, s\<lparr>input_edge := (input_edge s)(k := False)\<rparr>)"
| "exchange_false Escape s = (input_escape s, s\<lparr>input_escape := False\<rparr>)"

text \<open>
  Schedules. The stores and exchanges on the atomics are sequentially consistent, so
  a run of the two threads is a sequence of events, each either one iteration of the
  sampler on what the keyboard shows at that moment or one exchange of the consumer.
  \<open>final\<close> is the state after a schedule and \<open>observations\<close> lists what the exchanges
  returned, in order.
\<close>

datatype event = Sample "edge_key \<Rightarrow> bool" bool | Exchange one_shot

fun step :: "event \<Rightarrow> input_registers \<Rightarrow> input_registers" where
  "step (Sample down escBit) s = InputThreadProc_edges down escBit s"
| "step (Exchange f) s = snd (exchange_false f s)"

fun observe :: "event \<Rightarrow> input_registers \<Rightarrow> (one_shot \<times> bool) list" where
  "observe (Sample down escBit) s = []"
| "observe (Exchange f) s = [(f, fst (exchange_false f s))]"

fun final :: "event list \<Rightarrow> input_registers \<Rightarrow> input_registers" where
  "final [] s = s"
| "final (e # evs) s = final evs (step e s)"

fun observations :: "event list \<Rightarrow> input_registers \<Rightarrow> (one_shot \<times> bool) list" where
  "observations [] s = []"
| "observations (e # evs) s = observe e s @ observations evs (step e s)"

text \<open>The input signals as the sampler saw them: the successive values of the key, the
  successive values of the escape bit, and the number of rising edges of a boolean
  signal whose value before the first sample was \<open>l\<close>.\<close>

fun key_trace :: "edge_key \<Rightarrow> event list \<Rightarrow> bool list" where
  "key_trace k [] = []"
| "key_trace k (Sample down escBit # evs) = down k # key_trace k evs"
| "key_trace k (Exchange f # evs) = key_trace k evs"

fun escape_trace :: "event list \<Rightarrow> bool list" where
  "escape_trace [] = []"
| "escape_trace (Sample down escBit # evs) = escBit # escape_trace evs"
| "escape_trace (Exchange f # evs) = escape_trace evs"

fun rising_edges :: "bool \<Rightarrow> bool list \<Rightarrow> nat" where
  "rising_edges l [] = 0"
| "rising_edges l (b # bs) = (if b \<and> \<not> l then 1 else 0) + rising_edges b bs"

text \<open>Whether an event stores \<open>true\<close> into a flag, and how often a schedule does.\<close>

fun records :: "one_shot \<Rightarrow> event \<Rightarrow> input_registers \<Rightarrow> bool" where
  "records (Edge k) (Sample down escBit) s = (down k \<and> \<not> lastKey s k)"
| "records Escape (Sample down escBit) s = escBit"
| "records f (Exchange g) s = False"

fun stores :: "one_shot \<Rightarrow> event list \<Rightarrow> input_registers \<Rightarrow> nat" where
  "stores f [] s = 0"
| "stores f (e # evs) s = (if records f e s then 1 else 0) + stores f evs (step e s)"

subsection \<open>The states of a run\<close>

text \<open>
  The kernel records a run of the program passes through. The physics thread
  contributes its four critical sections one by one, with the step \<open>DELTA_T\<close>, so that
  the writes of the other threads may fall between them. The input thread stores the
  controls. The render thread starts a race (lines 1120-1124), acknowledges the end of
  one (lines 1475-1476 and 1577-1579), resets the player on the way (the reset alone is
  a state of its own), and writes a menu state or \<open>SYSTEM_HALT\<close> (lines 1096, 1097,
  1126, 1478 and 1581); the sound thread clears the three sound flags (lines 601, 613
  and 634). The render thread is the only writer of \<open>KERNEL_RUNNING\<close>, and it writes
  it only at line 1124. The relation allows the menu writes and the reset in every
  state, which is more than the render thread does.
\<close>

inductive reachable :: "kernel \<Rightarrow> bool" where
  boot: "reachable kernel_boot"
| integrate: "reachable w \<Longrightarrow> reachable (physics_integrate DELTA_T w)"
| boundary: "reachable w \<Longrightarrow> reachable (EnforceBoundaryProtection w)"
| collision: "reachable w \<Longrightarrow> reachable (CheckObstacleCollision w)"
| warning: "reachable w \<Longrightarrow> reachable (update_warning w)"
| controls: "reachable w \<Longrightarrow> reachable (store_controls c w)"
| start: "reachable w \<Longrightarrow> reachable (start_race nSelectedMap w)"
| acknowledged: "reachable w \<Longrightarrow> reachable (acknowledge w)"
| reset: "reachable w \<Longrightarrow> reachable (w\<lparr>player := PlayerPCB_default\<rparr>)"
| menu: "reachable w \<Longrightarrow> s \<noteq> KERNEL_RUNNING \<Longrightarrow> reachable (w\<lparr>currentState := s\<rparr>)"
| sounds: "reachable w \<Longrightarrow>
     reachable (w\<lparr>sound_crash := sound_crash w \<and> a, sound_gameover := sound_gameover w \<and> b,
                  sound_win := sound_win w \<and> c\<rparr>)"

subsection \<open>Concrete kernels\<close>

text \<open>A race on map \<open>mapid\<close>, started from the boot state, with the vehicle put at
  lateral offset \<open>x\<close> and distance \<open>d\<close>.\<close>

definition race_at :: "int \<Rightarrow> real \<Rightarrow> real \<Rightarrow> kernel" where
  "race_at mapid x d =
     (let w = start_race mapid kernel_boot
      in w\<lparr>player := (player w)\<lparr>fX_Register := x, fDistance := d\<rparr>\<rparr>)"

text \<open>Map 2, beside the first obstacle of segment 4 (\<open>fSegDistance 20\<close>, lateral
  interval from \<open>0.25\<close> to \<open>0.55\<close>), which starts at distance \<open>600\<close>: once well inside
  the obstacle, once with the right edge of the vehicle at its left edge.\<close>

definition kernel_at_obstacle :: kernel where
  "kernel_at_obstacle = race_at 2 (f32 0.3) (f32 620.2)"

definition kernel_touching_obstacle :: kernel where
  "kernel_touching_obstacle = race_at 2 (f32 0.07) 620"

text \<open>Map 2 near its start, the vehicle at the binary32 value of \<open>0.82\<close>.\<close>

definition kernel_at_082 :: kernel where
  "kernel_at_082 = race_at 2 (f32 0.82) 10"

text \<open>Map 1 (length \<open>1000\<close>) after a win, the vehicle at lateral offset \<open>x\<close>.\<close>

definition won_at :: "real \<Rightarrow> kernel" where
  "won_at x = (race_at 1 x 1000)\<lparr>currentState := GAME_WIN\<rparr>"

text \<open>The case of the specification: one segment with one obstacle at lateral offset \<open>0\<close>
  and of width \<open>0.4\<close>, the vehicle level with it at lateral offset \<open>x\<close>.\<close>

definition one_obstacle_kernel :: "real \<Rightarrow> kernel" where
  "one_obstacle_kernel x =
     kernel_boot\<lparr>vecTrack := [(seg 0 100)\<lparr>vecObstacles := [obst 20 0 (f32 0.4)]\<rparr>],
       fTotalTrackLength := 100,
       player := PlayerPCB_default\<lparr>fX_Register := x, fDistance := 20\<rparr>,
       currentState := KERNEL_RUNNING\<rparr>"

text \<open>Map 1, one step before the finish at top speed with the accelerator held: once
  steering right close to the right limit, once in the middle of the road.\<close>

definition finish_at_edge :: kernel where
  "finish_at_edge =
     (let w = store_controls (1, True, False) (start_race 1 kernel_boot)
      in w\<lparr>player := (player w)\<lparr>fX_Register := f32 0.8199, fSpeed := 50,
                fDistance := f32 999.9, fHeadingAngle := f32 0.1\<rparr>\<rparr>)"

definition finish_inside :: kernel where
  "finish_inside =
     (let w = store_controls (0, True, False) (start_race 1 kernel_boot)
      in w\<lparr>player := (player w)\<lparr>fSpeed := 50, fDistance := f32 999.9\<rparr>\<rparr>)"

text \<open>Map 1 after a crash at the right limit, the controls still held.\<close>

definition crashed_at_wall :: kernel where
  "crashed_at_wall = crash (store_controls (1, True, False) (race_at 1 (f32 0.83) 300))"

text \<open>Map 1 at distance \<open>100\<close>, at top speed with the accelerator held.\<close>

definition cruising :: kernel where
  "cruising =
     (let w = store_controls (0, True, False) (start_race 1 kernel_boot)
      in w\<lparr>player := (player w)\<lparr>fSpeed := 50, fDistance := 100\<rparr>\<rparr>)"



text \<open>A schedule for the space key: the consumer polls, the key goes down and is
  sampled three times while held (the escape bit is reported with the last of these);
  later the key is still held, then released, and the consumer polls again.\<close>

definition space_held :: "edge_key \<Rightarrow> bool" where
  "space_held k = (k = VK_SPACE)"

definition no_key :: "edge_key \<Rightarrow> bool" where
  "no_key k = False"

definition space_schedule_pre :: "event list" where
  "space_schedule_pre =
     [Exchange (Edge VK_SPACE), Sample no_key False, Sample space_held False,
      Sample space_held False, Sample space_held True]"

definition space_schedule_post :: "event list" where
  "space_schedule_post =
     [Sample space_held False, Sample no_key False, Exchange (Edge VK_SPACE),
      Exchange Escape, Exchange Escape]"

section \<open>Lemmas\<close>

subsection \<open>Rounding\<close>

lemma ilog2_bounds:
  assumes "0 < x"
  shows "2 powi ilog2 x \<le> x \<and> x < 2 powi (ilog2 x + 1)"
proof (cases "1 \<le> x")
  case True
  define n where "n = \<lfloor>x\<rfloor>"
  have n1: "1 \<le> n" using True by (simp add: n_def)
  then have n0: "0 < n" by simp
  have b1: "1 \<le> bitlen n" using n0 by (auto simp: bitlen_alt_def)
  note bb = bitlen_bounds[OF n0]
  have e: "ilog2 x = bitlen n - 1" using True by (simp add: ilog2_def n_def)
  have lo: "(2::real) powi (bitlen n - 1) = of_int (2 ^ nat (bitlen n - 1))"
    using b1 by (simp add: power_int_def)
  have hi: "(2::real) powi (bitlen n - 1 + 1) = of_int (2 ^ nat (bitlen n))"
    using b1 by (simp add: power_int_def)
  have "of_int (2 ^ nat (bitlen n - 1)) \<le> (of_int n :: real)"
    using bb by (simp only: of_int_le_iff)
  also have "of_int n \<le> x" by (simp add: n_def)
  finally have A: "2 powi ilog2 x \<le> x" by (simp only: e lo)
  have "n + 1 \<le> 2 ^ nat (bitlen n)" using bb by simp
  then have "(of_int (n + 1) :: real) \<le> of_int (2 ^ nat (bitlen n))"
    by (simp only: of_int_le_iff)
  moreover have "x < of_int (n + 1)" by (simp add: n_def)
  ultimately have B: "x < 2 powi (ilog2 x + 1)" by (simp only: e hi)
  from A B show ?thesis ..
next
  case False
  then have x1: "x < 1" by simp
  define y where "y = 1 / x"
  have y1: "1 < y" using assms x1 by (simp add: y_def)
  define n where "n = \<lceil>y\<rceil> - 1"
  have n0: "0 < n" using y1 by (simp add: n_def less_ceiling_iff)
  have b1: "1 \<le> bitlen n" using n0 by (auto simp: bitlen_alt_def)
  note bb = bitlen_bounds[OF n0]
  have e: "ilog2 x = - bitlen n" using False by (simp add: ilog2_def n_def y_def)
  have yn: "of_int n < y" "y \<le> of_int n + 1"
    by (simp_all add: n_def) linarith+
  have "(of_int (2 ^ nat (bitlen n - 1)) :: real) \<le> of_int n"
    using bb by (simp only: of_int_le_iff)
  then have "(2::real) ^ nat (bitlen n - 1) \<le> of_int n"
    by (simp only: of_int_power of_int_numeral)
  with yn have lo: "(2::real) ^ nat (bitlen n - 1) < y" by linarith
  have "n + 1 \<le> 2 ^ nat (bitlen n)" using bb by simp
  then have "(of_int (n + 1) :: real) \<le> of_int (2 ^ nat (bitlen n))"
    by (simp only: of_int_le_iff)
  then have "of_int n + 1 \<le> (2::real) ^ nat (bitlen n)"
    by (simp only: of_int_power of_int_numeral of_int_add of_int_1)
  with yn have hi: "y \<le> (2::real) ^ nat (bitlen n)" by linarith
  have p1: "(2::real) powi (- bitlen n) = 1 / 2 ^ nat (bitlen n)"
    using b1 by (simp add: power_int_def field_simps)
  have p2: "(2::real) powi (- bitlen n + 1) = 1 / 2 ^ nat (bitlen n - 1)"
    using b1 by (simp add: power_int_def field_simps)
  have A: "2 powi ilog2 x \<le> x"
    unfolding e p1 using hi assms by (simp add: y_def field_simps)
  have B: "x < 2 powi (ilog2 x + 1)"
    unfolding e p2 using lo assms by (simp add: y_def field_simps)
  from A B show ?thesis ..
qed

lemma ilog2_unique:
  assumes "2 powi e \<le> x" "x < 2 powi (e + 1)"
  shows "ilog2 x = e"
proof -
  have "(0::real) < 2 powi e" by simp
  with assms(1) have x0: "0 < x" by linarith
  note b = ilog2_bounds[OF x0]
  have A: "(2::real) powi ilog2 x < 2 powi (e + 1)" using b assms by linarith
  have 1: "ilog2 x < e + 1"
  proof (rule ccontr)
    assume "\<not> ilog2 x < e + 1"
    then have "(2::real) powi (e + 1) \<le> 2 powi ilog2 x"
      by (intro power_int_increasing) simp_all
    with A show False by linarith
  qed
  have B: "(2::real) powi e < 2 powi (ilog2 x + 1)" using b assms by linarith
  have 2: "e < ilog2 x + 1"
  proof (rule ccontr)
    assume "\<not> e < ilog2 x + 1"
    then have "(2::real) powi (ilog2 x + 1) \<le> 2 powi e"
      by (intro power_int_increasing) simp_all
    with B show False by linarith
  qed
  from 1 2 show ?thesis by simp
qed

lemma rne_bounds:
  "of_int (rne m) \<le> m + 1 / 2" "m - 1 / 2 \<le> of_int (rne m)"
  "\<lfloor>m\<rfloor> \<le> rne m" "rne m \<le> \<lceil>m\<rceil>"
proof -
  define f where "f = \<lfloor>m\<rfloor>"
  have fm: "of_int f \<le> m" "m < of_int f + 1" unfolding f_def by linarith+
  have r: "rne m = (if m - of_int f < 1 / 2 then f else if 1 / 2 < m - of_int f then f + 1
                    else if even f then f else f + 1)"
    by (simp add: rne_def Let_def f_def)
  show "of_int (rne m) \<le> m + 1 / 2" "m - 1 / 2 \<le> of_int (rne m)"
    using fm unfolding r by auto
  show "\<lfloor>m\<rfloor> \<le> rne m" unfolding r f_def[symmetric] by auto
  show "rne m \<le> \<lceil>m\<rceil>"
  proof (cases "m = of_int \<lfloor>m\<rfloor>")
    case True
    then have "\<lceil>m\<rceil> = \<lfloor>m\<rfloor>" by (metis ceiling_of_int)
    then show ?thesis using True by (simp add: rne_def Let_def)
  next
    case False
    then have "\<lceil>m\<rceil> = \<lfloor>m\<rfloor> + 1" by (simp add: ceiling_altdef)
    then show ?thesis by (simp add: rne_def Let_def)
  qed
qed

lemma rne_of_int [simp]: "rne (of_int j) = j"
  by (simp add: rne_def)

lemma rne_mono: "m \<le> m' \<Longrightarrow> rne m \<le> rne m'"
proof -
  assume le: "m \<le> m'"
  define f where "f = \<lfloor>m\<rfloor>"
  define f' where "f' = \<lfloor>m'\<rfloor>"
  have ff: "f \<le> f'" unfolding f_def f'_def using le by (rule floor_mono)
  show ?thesis
  proof (cases "f = f'")
    case True
    have r: "rne m = (if m - of_int f < 1 / 2 then f else if 1 / 2 < m - of_int f then f + 1
                    else if even f then f else f + 1)"
      by (simp add: rne_def Let_def f_def)
    have r': "rne m' = (if m' - of_int f < 1 / 2 then f else if 1 / 2 < m' - of_int f then f + 1
                    else if even f then f else f + 1)"
      by (simp add: rne_def Let_def f'_def True)
    show ?thesis unfolding r r' using le by auto
  next
    case False
    with ff have "f + 1 \<le> f'" by simp
    moreover have "rne m \<le> f + 1" by (simp add: rne_def Let_def f_def)
    moreover have "f' \<le> rne m'" unfolding f'_def by (rule rne_bounds(3))
    ultimately show ?thesis by linarith
  qed
qed

lemma rne_minus: "rne (- m) = - rne m"
proof (cases "m = of_int \<lfloor>m\<rfloor>")
  case True
  then obtain j where "m = of_int j" ..
  then have "rne (- m) = rne (of_int (- j))" by simp
  also have "\<dots> = - j" by (rule rne_of_int)
  finally show ?thesis using \<open>m = of_int j\<close> by simp
next
  case False
  define f where "f = \<lfloor>m\<rfloor>"
  have fm: "of_int f < m" "m < of_int f + 1"
    using False unfolding f_def by linarith+
  have fl: "\<lfloor>- m\<rfloor> = - f - 1" using fm by (intro floor_unique) simp_all
  have r: "rne m = (if m - of_int f < 1 / 2 then f else if 1 / 2 < m - of_int f then f + 1
                    else if even f then f else f + 1)"
    by (simp add: rne_def Let_def f_def)
  have r': "rne (- m) = (if - m - of_int (- f - 1) < 1 / 2 then - f - 1
       else if 1 / 2 < - m - of_int (- f - 1) then - f - 1 + 1
       else if even (- f - 1) then - f - 1 else - f - 1 + 1)"
    unfolding rne_def Let_def fl ..
  show ?thesis unfolding r r' using fm by auto
qed

lemma round_to_minus: "round_to p emin (- x) = - round_to p emin x"
  by (simp add: round_to_def Let_def rne_minus)

lemma round_to_pos_grid:
  assumes "0 < x" and e: "e = max (ilog2 x) emin"
  shows "round_to p emin x = of_int (rne (x / 2 powi (e - int p + 1))) * 2 powi (e - int p + 1)"
  using assms by (simp add: round_to_def Let_def)

lemma round_to_nonneg: "0 \<le> x \<Longrightarrow> 0 \<le> round_to p emin x"
proof -
  assume x: "0 \<le> x"
  show ?thesis
  proof (cases "x = 0")
    case True then show ?thesis by (simp add: round_to_def)
  next
    case False
    with x have x0: "0 < x" by simp
    define q :: real where "q = 2 powi (max (ilog2 x) emin - int p + 1)"
    have q0: "0 < q" by (simp add: q_def)
    have "0 \<le> x / q" using x0 q0 by simp
    then have "0 \<le> \<lfloor>x / q\<rfloor>" by simp
    with rne_bounds(3)[of "x / q"] have "0 \<le> rne (x / q)" by linarith
    then have "0 \<le> of_int (rne (x / q)) * q" using q0 by simp
    then show ?thesis using round_to_pos_grid[OF x0 refl, where emin=emin and p=p] by (simp add: q_def)
  qed
qed

text \<open>A multiple of the quantum of x bounds the rounding of x as it bounds x.\<close>

lemma round_to_grid_le:
  assumes "0 < x" and "q = 2 powi (max (ilog2 x) emin - int p + 1)"
    and "x \<le> of_int n * q"
  shows "round_to p emin x \<le> of_int n * q"
proof -
  have q0: "0 < q" by (simp add: assms(2))
  have "x / q \<le> of_int n" using assms(3) q0 by (simp add: field_simps)
  then have "\<lceil>x / q\<rceil> \<le> n" by (simp add: ceiling_le_iff)
  with rne_bounds(4)[of "x / q"] have "rne (x / q) \<le> n" by linarith
  then have "(of_int (rne (x / q)) :: real) \<le> of_int n" by (simp only: of_int_le_iff)
  then have "of_int (rne (x / q)) * q \<le> of_int n * q"
    using q0 by (intro mult_right_mono) simp_all
  then show ?thesis using round_to_pos_grid[OF assms(1) refl, where emin=emin and p=p] assms(2) by simp
qed

lemma round_to_grid_ge:
  assumes "0 < x" and "q = 2 powi (max (ilog2 x) emin - int p + 1)"
    and "of_int n * q \<le> x"
  shows "of_int n * q \<le> round_to p emin x"
proof -
  have q0: "0 < q" by (simp add: assms(2))
  have "of_int n \<le> x / q" using assms(3) q0 by (simp add: field_simps)
  then have "n \<le> \<lfloor>x / q\<rfloor>" by (simp add: le_floor_iff)
  with rne_bounds(3)[of "x / q"] have "n \<le> rne (x / q)" by linarith
  then have "(of_int n :: real) \<le> of_int (rne (x / q))" by (simp only: of_int_le_iff)
  then have "of_int n * q \<le> of_int (rne (x / q)) * q"
    using q0 by (intro mult_right_mono) simp_all
  then show ?thesis using round_to_pos_grid[OF assms(1) refl, where emin=emin and p=p] assms(2) by simp
qed

lemma powi_split:
  "j \<le> k \<Longrightarrow> (2::real) powi k = of_int (2 ^ nat (k - j)) * 2 powi j"
proof -
  assume "j \<le> k"
  then have "(2::real) powi k = 2 powi (k - j) * 2 powi j"
    by (simp flip: power_int_add)
  also have "(2::real) powi (k - j) = of_int (2 ^ nat (k - j))"
    using \<open>j \<le> k\<close> by (simp add: power_int_def)
  finally show ?thesis .
qed

text \<open>Rounding does not cross a power of two at or above the smallest normal one.\<close>

lemma round_to_le_pow:
  assumes "0 < x" "x \<le> 2 powi k" "emin \<le> k" "1 \<le> p"
  shows "round_to p emin x \<le> 2 powi k"
proof -
  define e where "e = max (ilog2 x) emin"
  have "(2::real) powi ilog2 x \<le> 2 powi k"
    using ilog2_bounds[OF assms(1)] assms(2) by linarith
  then have "ilog2 x \<le> k"
  proof -
    have "\<not> k < ilog2 x"
    proof
      assume "k < ilog2 x"
      then have "(2::real) powi k < 2 powi ilog2 x"
        by (intro power_int_strict_increasing) simp_all
      with \<open>(2::real) powi ilog2 x \<le> 2 powi k\<close> show False by linarith
    qed
    then show ?thesis by simp
  qed
  then have ek: "e \<le> k" using assms(3) by (simp add: e_def)
  then have j: "e - int p + 1 \<le> k" using assms(4) by simp
  note s = powi_split[OF j]
  have "round_to p emin x \<le> of_int (2 ^ nat (k - (e - int p + 1))) * 2 powi (e - int p + 1)"
    using assms(2) unfolding s
    by (intro round_to_grid_le[OF assms(1)]) (simp_all add: e_def)
  then show ?thesis unfolding s .
qed

lemma round_to_ge_pow:
  assumes "2 powi k \<le> x" "emin \<le> k" "1 \<le> p"
  shows "2 powi k \<le> round_to p emin x"
proof -
  have "(0::real) < 2 powi k" by simp
  with assms(1) have x0: "0 < x" by linarith
  define e where "e = max (ilog2 x) emin"
  have "(2::real) powi k < 2 powi (ilog2 x + 1)"
    using ilog2_bounds[OF x0] assms(1) by linarith
  then have "k < ilog2 x + 1"
  proof -
    have "\<not> ilog2 x + 1 \<le> k"
    proof
      assume "ilog2 x + 1 \<le> k"
      then have "(2::real) powi (ilog2 x + 1) \<le> 2 powi k"
        by (intro power_int_increasing) simp_all
      with \<open>(2::real) powi k < 2 powi (ilog2 x + 1)\<close> show False by linarith
    qed
    then show ?thesis by simp
  qed
  then have ke: "k \<le> e" by (simp add: e_def)
  have ee: "e = ilog2 x" using \<open>k < ilog2 x + 1\<close> assms(2) by (simp add: e_def)
  have j: "e - int p + 1 \<le> e" using assms(3) by simp
  note s = powi_split[OF j]
  have le: "(2::real) powi e \<le> x" using ilog2_bounds[OF x0] by (simp add: ee)
  have "of_int (2 ^ nat (e - (e - int p + 1))) * 2 powi (e - int p + 1) \<le> round_to p emin x"
    using le unfolding s
    by (intro round_to_grid_ge[OF x0]) (simp_all add: e_def)
  then have "(2::real) powi e \<le> round_to p emin x" unfolding s[symmetric] .
  moreover have "(2::real) powi k \<le> 2 powi e"
    using ke by (intro power_int_increasing) simp_all
  ultimately show ?thesis by linarith
qed

lemma round_to_mono_pos:
  assumes "0 < x" "x \<le> y" "1 \<le> p"
  shows "round_to p emin x \<le> round_to p emin y"
proof -
  have y0: "0 < y" using assms by linarith
  define ex where "ex = max (ilog2 x) emin"
  define ey where "ey = max (ilog2 y) emin"
  have il: "ilog2 x \<le> ilog2 y"
  proof -
    have "\<not> ilog2 y < ilog2 x"
    proof
      assume "ilog2 y < ilog2 x"
      then have "ilog2 y + 1 \<le> ilog2 x" by simp
      then have "(2::real) powi (ilog2 y + 1) \<le> 2 powi ilog2 x"
        by (intro power_int_increasing) simp_all
      with ilog2_bounds[OF assms(1)] ilog2_bounds[OF y0] assms(2) show False by linarith
    qed
    then show ?thesis by simp
  qed
  then have exy: "ex \<le> ey" by (auto simp: ex_def ey_def)
  show ?thesis
  proof (cases "ex = ey")
    case True
    define q :: real where "q = 2 powi (ex - int p + 1)"
    have q0: "0 < q" by (simp add: q_def)
    have "x / q \<le> y / q" using assms(2) q0 by (simp add: divide_right_mono)
    then have "rne (x / q) \<le> rne (y / q)" by (rule rne_mono)
    then have "(of_int (rne (x / q)) :: real) \<le> of_int (rne (y / q))"
      by (simp only: of_int_le_iff)
    then have "of_int (rne (x / q)) * q \<le> of_int (rne (y / q)) * q"
      using q0 by (intro mult_right_mono) simp_all
    then show ?thesis
      using round_to_pos_grid[OF assms(1) ex_def, where p=p] round_to_pos_grid[OF y0 ey_def, where p=p]
      by (simp add: q_def True)
  next
    case False
    with exy have lt: "ex < ey" by simp
    have eyi: "ey = ilog2 y" "emin \<le> ey"
      using lt by (auto simp: ex_def ey_def)
    have "ilog2 x + 1 \<le> ey" using lt by (simp add: ex_def)
    then have "(2::real) powi (ilog2 x + 1) \<le> 2 powi ey"
      by (intro power_int_increasing) simp_all
    with ilog2_bounds[OF assms(1)] have xe: "x \<le> 2 powi ey" by linarith
    have ye: "2 powi ey \<le> y" using ilog2_bounds[OF y0] by (simp add: eyi)
    have "round_to p emin x \<le> 2 powi ey"
      by (rule round_to_le_pow[OF assms(1) xe eyi(2) assms(3)])
    moreover have "2 powi ey \<le> round_to p emin y"
      by (rule round_to_ge_pow[OF ye eyi(2) assms(3)])
    ultimately show ?thesis by linarith
  qed
qed

lemma round_to_mono:
  assumes "x \<le> y" "1 \<le> p"
  shows "round_to p emin x \<le> round_to p emin y"
proof -
  consider "0 < x" | "x \<le> 0" "0 \<le> y" | "y < 0" by linarith
  then show ?thesis
  proof cases
    case 1
    then show ?thesis by (rule round_to_mono_pos[OF _ assms])
  next
    case 2
    have "0 \<le> round_to p emin (- x)" using 2 by (intro round_to_nonneg) simp
    then have "round_to p emin x \<le> 0" by (simp add: round_to_minus)
    moreover have "0 \<le> round_to p emin y" using 2 by (intro round_to_nonneg)
    ultimately show ?thesis by linarith
  next
    case 3
    have "round_to p emin (- y) \<le> round_to p emin (- x)"
      using 3 assms by (intro round_to_mono_pos) simp_all
    then show ?thesis by (simp add: round_to_minus)
  qed
qed

lemma round_to_exact:
  assumes "x = of_int m * 2 powi k" "\<bar>m\<bar> < 2 ^ p" "emin - int p + 1 \<le> k"
  shows "round_to p emin x = x"
proof (cases "x = 0")
  case True
  then show ?thesis by (simp add: round_to_def)
next
  case False
  define a where "a = \<bar>x\<bar>"
  have a0: "0 < a" using False by (simp add: a_def)
  have am: "a = of_int \<bar>m\<bar> * 2 powi k" by (simp add: a_def assms(1) abs_mult)
  have "(of_int \<bar>m\<bar> :: real) < of_int (2 ^ p)" using assms(2) by (simp only: of_int_less_iff)
  then have "of_int \<bar>m\<bar> * (2::real) powi k < of_int (2 ^ p) * 2 powi k"
    by (intro mult_strict_right_mono) simp_all
  also have "\<dots> = 2 powi (int p + k)" by (simp add: power_int_add)
  finally have alt: "a < 2 powi (int p + k)" by (simp add: am)
  have il: "ilog2 a < int p + k"
  proof -
    have "\<not> int p + k \<le> ilog2 a"
    proof
      assume "int p + k \<le> ilog2 a"
      then have "(2::real) powi (int p + k) \<le> 2 powi ilog2 a"
        by (intro power_int_increasing) simp_all
      with ilog2_bounds[OF a0] alt show False by linarith
    qed
    then show ?thesis by simp
  qed
  define e where "e = max (ilog2 a) emin"
  have j: "e - int p + 1 \<le> k" using il assms(3) by (simp add: e_def)
  define q :: real where "q = 2 powi (e - int p + 1)"
  have q0: "0 < q" by (simp add: q_def)
  have "x = of_int m * (of_int (2 ^ nat (k - (e - int p + 1))) * q)"
    unfolding q_def using powi_split[OF j] assms(1) by simp
  then have xq: "x = of_int (m * 2 ^ nat (k - (e - int p + 1))) * q" by simp
  then have "x / q = of_int (m * 2 ^ nat (k - (e - int p + 1)))" using q0 by simp
  then have "rne (x / q) = m * 2 ^ nat (k - (e - int p + 1))" by (simp only: rne_of_int)
  then have "of_int (rne (x / q)) * q = x" using xq by simp
  then show ?thesis using False by (simp add: round_to_def Let_def e_def q_def a_def)
qed

lemma round_to_idem:
  assumes "1 \<le> p"
  shows "round_to p emin (round_to p emin x) = round_to p emin x"
proof -
  have pos: "round_to p emin (round_to p emin y) = round_to p emin y" if y0: "0 < y" for y
  proof -
    define e where "e = max (ilog2 y) emin"
    define k where "k = e - int p + 1"
    define q :: real where "q = 2 powi k"
    define n where "n = rne (y / q)"
    have q0: "0 < q" by (simp add: q_def)
    have r: "round_to p emin y = of_int n * q"
      using round_to_pos_grid[OF y0 e_def, where p=p] by (simp add: n_def q_def k_def)
    have "y < 2 powi (ilog2 y + 1)" using ilog2_bounds[OF y0] by simp
    also have "\<dots> \<le> 2 powi (e + 1)" by (intro power_int_increasing) (simp_all add: e_def)
    also have "\<dots> = 2 powi (int p + (e - int p + 1))" by simp
    also have "\<dots> = 2 powi (int p) * 2 powi (e - int p + 1)"
      by (rule power_int_add) simp
    also have "\<dots> = of_int (2 ^ p) * q"
      by (simp add: q_def k_def)
    finally have "y / q < of_int (2 ^ p)" using q0 by (simp add: field_simps)
    then have "y / q \<le> of_int (2 ^ p)" by simp
    then have "\<lceil>y / q\<rceil> \<le> 2 ^ p" by (simp only: ceiling_le_iff)
    with rne_bounds(4)[of "y / q"] have nle: "n \<le> 2 ^ p" unfolding n_def by linarith
    have "0 \<le> y / q" using y0 q0 by simp
    then have "0 \<le> \<lfloor>y / q\<rfloor>" by simp
    with rne_bounds(3)[of "y / q"] have n0: "0 \<le> n" unfolding n_def by linarith
    have kk: "emin - int p + 1 \<le> k" by (simp add: k_def e_def)
    show ?thesis
    proof (cases "n = 2 ^ p")
      case False
      with nle n0 have "\<bar>n\<bar> < 2 ^ p" by simp
      from round_to_exact[OF _ this kk, of "of_int n * q"] show ?thesis
        by (simp add: r q_def)
    next
      case True
      have p1: "p = Suc (p - 1)" using assms by simp
      have a: "of_int n * q = of_int (2 ^ (p - 1)) * (2 powi (k + 1))"
        unfolding True q_def by (subst p1) (simp add: power_int_add)
      have b: "\<bar>(2::int) ^ (p - 1)\<bar> < 2 ^ p" using assms by simp
      have c: "emin - int p + 1 \<le> k + 1" using kk by simp
      have "round_to p emin (of_int n * q) = of_int n * q"
        by (rule round_to_exact[OF a b c])
      then show ?thesis by (simp add: r)
    qed
  qed
  consider "x = 0" | "0 < x" | "x < 0" by linarith
  then show ?thesis
  proof cases
    case 1 then show ?thesis by (simp add: round_to_def)
  next
    case 2 then show ?thesis by (rule pos)
  next
    case 3
    then have "round_to p emin (round_to p emin (- x)) = round_to p emin (- x)"
      by (intro pos) simp
    then show ?thesis by (simp add: round_to_minus)
  qed
qed

text \<open>The error of a rounding is at most half the quantum.\<close>

lemma round_to_error:
  assumes "0 < x" "x < 2 powi k" "emin < k"
  shows "\<bar>round_to p emin x - x\<bar> \<le> 2 powi (k - int p) / 2"
proof -
  define e where "e = max (ilog2 x) emin"
  define q :: real where "q = 2 powi (e - int p + 1)"
  have q0: "0 < q" by (simp add: q_def)
  have "(2::real) powi ilog2 x < 2 powi k" using ilog2_bounds[OF assms(1)] assms(2) by linarith
  have "ilog2 x < k"
  proof -
    have "\<not> k \<le> ilog2 x"
    proof
      assume "k \<le> ilog2 x"
      then have "(2::real) powi k \<le> 2 powi ilog2 x"
        by (intro power_int_increasing) simp_all
      with \<open>(2::real) powi ilog2 x < 2 powi k\<close> show False by linarith
    qed
    then show ?thesis by simp
  qed
  then have "e - int p + 1 \<le> k - int p" using assms(3) by (simp add: e_def)
  then have qk: "q \<le> 2 powi (k - int p)"
    unfolding q_def by (intro power_int_increasing) simp_all
  have r: "round_to p emin x = of_int (rne (x / q)) * q"
    using round_to_pos_grid[OF assms(1) e_def, where p=p] by (simp add: q_def)
  have "\<bar>of_int (rne (x / q)) - x / q\<bar> \<le> 1 / 2"
    using rne_bounds(1,2)[of "x / q"] by linarith
  then have "\<bar>of_int (rne (x / q)) - x / q\<bar> * q \<le> 1 / 2 * q"
    using q0 by (intro mult_right_mono) simp_all
  moreover have "\<bar>of_int (rne (x / q)) - x / q\<bar> * q = \<bar>of_int (rne (x / q)) * q - x\<bar>"
  proof -
    have "\<bar>of_int (rne (x / q)) - x / q\<bar> * q = \<bar>(of_int (rne (x / q)) - x / q) * q\<bar>"
      using q0 by (simp add: abs_mult)
    also have "(of_int (rne (x / q)) - x / q) * q = of_int (rne (x / q)) * q - x"
      using q0 by (simp add: field_simps)
    finally show ?thesis .
  qed
  ultimately have "\<bar>round_to p emin x - x\<bar> \<le> q / 2" by (simp add: r)
  with qk show ?thesis by linarith
qed

subsection \<open>The two formats\<close>

lemma f32_mono: "x \<le> y \<Longrightarrow> f32 x \<le> f32 y"
  unfolding f32_def by (rule round_to_mono) simp_all

lemma f64_mono: "x \<le> y \<Longrightarrow> f64 x \<le> f64 y"
  unfolding f64_def by (rule round_to_mono) simp_all

lemma f32_minus: "f32 (- x) = - f32 x"
  unfolding f32_def by (rule round_to_minus)

lemma f32_idem [simp]: "f32 (f32 x) = f32 x"
  unfolding f32_def by (rule round_to_idem) simp

lemma f64_idem [simp]: "f64 (f64 x) = f64 x"
  unfolding f64_def by (rule round_to_idem) simp

lemma is_f32_f32 [simp]: "is_f32 (f32 x)"
  by (simp add: is_f32_def)

lemma is_f64_f64 [simp]: "is_f64 (f64 x)"
  by (simp add: is_f64_def)

lemma is_f32_minus: "is_f32 x \<Longrightarrow> is_f32 (- x)"
  by (simp add: is_f32_def f32_minus)

lemma is_f32_le: "is_f32 r \<Longrightarrow> x \<le> r \<Longrightarrow> f32 x \<le> r"
  using f32_mono[of x r] by (simp add: is_f32_def)

lemma is_f32_ge: "is_f32 r \<Longrightarrow> r \<le> x \<Longrightarrow> r \<le> f32 x"
  using f32_mono[of r x] by (simp add: is_f32_def)

lemma f64_exact:
  "x = of_int m * 2 powi k \<Longrightarrow> \<bar>m\<bar> < 2 ^ 53 \<Longrightarrow> - 1074 \<le> k \<Longrightarrow> f64 x = x"
  unfolding f64_def by (rule round_to_exact) simp_all

lemma f32_exact:
  "x = of_int m * 2 powi k \<Longrightarrow> \<bar>m\<bar> < 2 ^ 24 \<Longrightarrow> - 149 \<le> k \<Longrightarrow> f32 x = x"
  unfolding f32_def by (rule round_to_exact) simp_all

subsection \<open>Evaluation of the rounding on literals\<close>

lemma round_to_eval:
  "round_to p emin x =
     (if x = 0 then 0
      else of_int (rne (x / 2 powi (max (ilog2 \<bar>x\<bar>) emin - int p + 1))) *
           2 powi (max (ilog2 \<bar>x\<bar>) emin - int p + 1))"
  by (simp add: round_to_def Let_def)

lemma rne_eval:
  "rne m =
     (if m - of_int \<lfloor>m\<rfloor> < 1 / 2 then \<lfloor>m\<rfloor>
      else if 1 / 2 < m - of_int \<lfloor>m\<rfloor> then \<lfloor>m\<rfloor> + 1
      else if even \<lfloor>m\<rfloor> then \<lfloor>m\<rfloor> else \<lfloor>m\<rfloor> + 1)"
  by (simp add: rne_def Let_def)

lemma f32_lit:
  "f32 0 = 0"
  "f32 1 = round_to 24 (- 126) 1"
  "f32 (- 1) = round_to 24 (- 126) (- 1)"
  "f32 (numeral a) = round_to 24 (- 126) (numeral a)"
  "f32 (- numeral a) = round_to 24 (- 126) (- numeral a)"
  "f32 (numeral a / numeral b) = round_to 24 (- 126) (numeral a / numeral b)"
  "f32 (- (numeral a / numeral b)) = round_to 24 (- 126) (- (numeral a / numeral b))"
  "f32 (1 / numeral b) = round_to 24 (- 126) (1 / numeral b)"
  "f32 (- (1 / numeral b)) = round_to 24 (- 126) (- (1 / numeral b))"
  by (simp_all add: f32_def round_to_def)

lemma f64_lit:
  "f64 0 = 0"
  "f64 1 = round_to 53 (- 1022) 1"
  "f64 (- 1) = round_to 53 (- 1022) (- 1)"
  "f64 (numeral a) = round_to 53 (- 1022) (numeral a)"
  "f64 (- numeral a) = round_to 53 (- 1022) (- numeral a)"
  "f64 (numeral a / numeral b) = round_to 53 (- 1022) (numeral a / numeral b)"
  "f64 (- (numeral a / numeral b)) = round_to 53 (- 1022) (- (numeral a / numeral b))"
  "f64 (1 / numeral b) = round_to 53 (- 1022) (1 / numeral b)"
  "f64 (- (1 / numeral b)) = round_to 53 (- 1022) (- (1 / numeral b))"
  by (simp_all add: f64_def round_to_def)

lemmas fl_ops = fadd_def fsub_def fmul_def fdiv_def dadd_def dsub_def

lemmas fl_eval = fl_ops f32_lit f64_lit round_to_eval rne_eval ilog2_def bitlen_def
  compute_floorlog

subsection \<open>The parameter table\<close>

lemmas KPT_defs =
  PHYSICS_HZ_def DELTA_T_def ROAD_WIDTH_LIMIT_def PLAYER_HALF_WIDTH_def MAX_SPEED_def
  ACCELERATION_def DECELERATION_def FRICTION_def LATERAL_FACTOR_def STEER_COMPENSATION_def
  HEADING_TURN_SPEED_def HEADING_DRIFT_FACTOR_def WARNING_RANGE_def

lemma KPT_vals:
  "PHYSICS_HZ = 240" "DELTA_T = 8947849 / 2147483648" "ROAD_WIDTH_LIMIT = 1"
  "PLAYER_HALF_WIDTH = 3019899 / 16777216" "MAX_SPEED = 50" "ACCELERATION = 17"
  "DECELERATION = 20" "FRICTION = 8387769 / 8388608" "LATERAL_FACTOR = 13743895 / 34359738368"
  "STEER_COMPENSATION = 8589935 / 4294967296" "HEADING_TURN_SPEED = 13421773 / 33554432"
  "HEADING_DRIFT_FACTOR = 8589935 / 2147483648" "WARNING_RANGE = 50"
  by (simp_all add: KPT_defs fl_eval)

lemma f32_DELTA_T: "f32 DELTA_T = DELTA_T"
  by (simp add: DELTA_T_def fdiv_def)

lemmas build_defs =
  race_at_def start_race_def LoadMap_def BuildTrackData_def push_obstacle_def seg_def obst_def
  kernel_boot_def PlayerPCB_default_def store_controls_def

subsection \<open>The road limits in binary32\<close>

lemma is_f32_one: "is_f32 1" "is_f32 (- 1)" "is_f32 (16777215 / 16777216)"
  by (simp_all add: is_f32_def fl_eval)

lemma f32_ge_one: "1 \<le> y \<Longrightarrow> 1 \<le> f32 y"
  by (rule is_f32_ge[OF is_f32_one(1)])

lemma f32_le_minus_one: "y \<le> - 1 \<Longrightarrow> f32 y \<le> - 1"
  by (rule is_f32_le[OF is_f32_one(2)])

lemma off_road_real:
  assumes "x - 0.18 \<le> - 1 \<or> x + 0.18 \<ge> 1"
  shows "fsub x PLAYER_HALF_WIDTH \<le> - 1 \<or> fadd x PLAYER_HALF_WIDTH \<ge> 1"
proof -
  have h: "(0.18::real) \<le> PLAYER_HALF_WIDTH" by (simp add: KPT_vals)
  from assms show ?thesis
  proof
    assume "x - 0.18 \<le> - 1"
    with h have "x - PLAYER_HALF_WIDTH \<le> - 1" by linarith
    then show ?thesis unfolding fsub_def by (intro disjI1 f32_le_minus_one)
  next
    assume "x + 0.18 \<ge> 1"
    with h have "1 \<le> x + PLAYER_HALF_WIDTH" by linarith
    then show ?thesis unfolding fadd_def by (intro disjI2 f32_ge_one)
  qed
qed

text \<open>A binary32 value in \<open>[1/2, 1)\<close> is a multiple of \<open>2 powi (- 24)\<close>.\<close>

lemma f32_grid_half:
  assumes "is_f32 x" "1 / 2 \<le> x" "x < 1"
  shows "\<exists>m. x = of_int m / 2 ^ 24"
proof -
  have x0: "0 < x" using assms(2) by simp
  have il: "ilog2 x = - 1"
    using assms(2,3) by (intro ilog2_unique) simp_all
  have "f32 x = of_int (rne (x / 2 powi (- 24))) * 2 powi (- 24)"
    unfolding f32_def using round_to_pos_grid[OF x0 refl, where p=24 and emin="- 126"]
    by (simp add: il)
  then have "x = of_int (rne (x / 2 powi (- 24))) / 2 ^ 24"
    using assms(1) by (simp add: is_f32_def power_int_minus field_simps)
  then show ?thesis ..
qed

lemma fadd_half_width_iff:
  assumes "is_f32 x"
  shows "fadd x PLAYER_HALF_WIDTH \<ge> 1 \<longleftrightarrow> x \<ge> 13757317 / 16777216"
proof
  assume "x \<ge> 13757317 / 16777216"
  then have "1 \<le> x + PLAYER_HALF_WIDTH" by (simp add: KPT_vals)
  then show "fadd x PLAYER_HALF_WIDTH \<ge> 1" unfolding fadd_def by (rule f32_ge_one)
next
  assume a: "fadd x PLAYER_HALF_WIDTH \<ge> 1"
  show "x \<ge> 13757317 / 16777216"
  proof (rule ccontr)
    assume "\<not> x \<ge> 13757317 / 16777216"
    then have lt: "x < 13757317 / 16777216" by simp
    have "x + PLAYER_HALF_WIDTH \<le> 16777215 / 16777216"
    proof (cases "x < 1 / 2")
      case True
      then show ?thesis by (simp add: KPT_vals)
    next
      case False
      then have "1 / 2 \<le> x" "x < 1" using lt by simp_all
      from f32_grid_half[OF assms this] obtain m where m: "x = of_int m / 2 ^ 24" ..
      with lt have "(of_int m :: real) < 13757317" by simp
      then have "m < 13757317" by linarith
      then have "m \<le> 13757316" by simp
      then have "(of_int m :: real) \<le> 13757316" by linarith
      then show ?thesis by (simp add: m KPT_vals)
    qed
    then have "f32 (x + PLAYER_HALF_WIDTH) \<le> 16777215 / 16777216"
      by (rule is_f32_le[OF is_f32_one(3)])
    with a show False by (simp add: fadd_def)
  qed
qed

lemma fsub_half_width_iff:
  assumes "is_f32 x"
  shows "fsub x PLAYER_HALF_WIDTH \<le> - 1 \<longleftrightarrow> x \<le> - (13757317 / 16777216)"
proof -
  have "fsub x PLAYER_HALF_WIDTH = - fadd (- x) PLAYER_HALF_WIDTH"
    using f32_minus[of "- x + PLAYER_HALF_WIDTH"] by (simp add: fsub_def fadd_def)
  then have "fsub x PLAYER_HALF_WIDTH \<le> - 1 \<longleftrightarrow> fadd (- x) PLAYER_HALF_WIDTH \<ge> 1" by simp
  also have "\<dots> \<longleftrightarrow> - x \<ge> 13757317 / 16777216"
    by (rule fadd_half_width_iff[OF is_f32_minus[OF assms]])
  finally show ?thesis by linarith
qed

subsection \<open>The two segment cursors\<close>

lemma cursors_agree_from:
  "physics_cursor t pos sec =
     (case collision_cursor t pos st sec of (p, s, n) \<Rightarrow> (p, n))"
proof (induction t pos st sec rule: collision_cursor.induct)
  case (1 t pos st sec)
  show ?case
  proof (cases "sec < length t \<and> pos \<ge> fDistance_seg (t ! sec)")
    case True
    then show ?thesis
      using "1.IH" by (subst physics_cursor.simps, subst collision_cursor.simps) simp
  next
    case False
    then show ?thesis
      by (subst physics_cursor.simps, subst collision_cursor.simps) auto
  qed
qed

lemma take_drop_step:
  "sec < m \<Longrightarrow> m \<le> length t \<Longrightarrow>
   take (m - sec) (drop sec t) = t ! sec # take (m - (sec + 1)) (drop (sec + 1) t)"
proof -
  assume a: "sec < m" "m \<le> length t"
  then have "drop sec t = t ! sec # drop (Suc sec) t"
    by (intro Cons_nth_drop_Suc[symmetric]) simp
  moreover have "m - sec = Suc (m - (sec + 1))" using a by simp
  ultimately show ?thesis by simp
qed

lemma collision_cursor_scan:
  "collision_cursor t pos st sec = (p, s, n) \<Longrightarrow> sec \<le> length t \<Longrightarrow>
     sec \<le> n \<and> n \<le> length t \<and> (n < length t \<longrightarrow> p < fDistance_seg (t ! n)) \<and>
     p = foldl fsub pos (map fDistance_seg (take (n - sec) (drop sec t))) \<and>
     s = foldl fadd st (map fDistance_seg (take (n - sec) (drop sec t))) \<and>
     (\<forall>k. sec \<le> k \<and> k < n \<longrightarrow>
        fDistance_seg (t ! k) \<le> foldl fsub pos (map fDistance_seg (take (k - sec) (drop sec t))))"
proof (induction t pos st sec arbitrary: p s n rule: collision_cursor.induct)
  case (1 t pos st sec)
  show ?case
  proof (cases "sec < length t \<and> pos \<ge> fDistance_seg (t ! sec)")
    case True
    with "1.prems" have rec:
      "collision_cursor t (fsub pos (fDistance_seg (t ! sec)))
         (fadd st (fDistance_seg (t ! sec))) (sec + 1) = (p, s, n)"
      by (subst (asm) collision_cursor.simps) simp
    from True have le: "sec + 1 \<le> length t" by simp
    note ih = "1.IH"[OF True rec le]
    from ih have n: "sec + 1 \<le> n" "n \<le> length t" by auto
    have peel: "\<And>m. sec + 1 \<le> m \<Longrightarrow> m \<le> length t \<Longrightarrow>
        take (m - sec) (drop sec t) = t ! sec # take (m - (sec + 1)) (drop (sec + 1) t)"
      by (rule take_drop_step) simp_all
    have "\<forall>k. sec \<le> k \<and> k < n \<longrightarrow>
            fDistance_seg (t ! k) \<le>
              foldl fsub pos (map fDistance_seg (take (k - sec) (drop sec t)))"
    proof (intro allI impI)
      fix k assume k: "sec \<le> k \<and> k < n"
      show "fDistance_seg (t ! k) \<le>
              foldl fsub pos (map fDistance_seg (take (k - sec) (drop sec t)))"
      proof (cases "k = sec")
        case True
        then show ?thesis
          using \<open>sec < length t \<and> pos \<ge> fDistance_seg (t ! sec)\<close> by simp
      next
        case False
        with k have k1: "sec + 1 \<le> k \<and> k < n" by simp
        with ih have "fDistance_seg (t ! k) \<le>
            foldl fsub (fsub pos (fDistance_seg (t ! sec)))
              (map fDistance_seg (take (k - (sec + 1)) (drop (sec + 1) t)))"
          by blast
        moreover have "k \<le> length t" using k1 n by simp
        ultimately show ?thesis using peel[of k] k1 by simp
      qed
    qed
    then show ?thesis using ih n peel[of n] by auto
  next
    case False
    with "1.prems" have "(p, s, n) = (pos, st, sec)"
      by (subst (asm) collision_cursor.simps) auto
    with False "1.prems" show ?thesis by auto
  qed
qed

subsection \<open>The detectors\<close>

lemma open_overlap_iff:
  fixes a b c d :: real
  shows "max a c < min b d \<longleftrightarrow> (\<exists>u. a < u \<and> u < b \<and> c < u \<and> u < d)"
proof
  assume h: "max a c < min b d"
  define m where "m = max a c"
  define n where "n = min b d"
  have bounds: "a \<le> m" "c \<le> m" "n \<le> b" "n \<le> d"
    by (simp_all add: m_def n_def)
  from h have "m < n" by (simp only: m_def n_def)
  then have "m < (m + n) / 2 \<and> (m + n) / 2 < n" by (simp add: field_simps)
  with bounds have
    "a < (m + n) / 2 \<and> (m + n) / 2 < b \<and> c < (m + n) / 2 \<and> (m + n) / 2 < d"
    by linarith
  then show "\<exists>u. a < u \<and> u < b \<and> c < u \<and> u < d" by blast
next
  assume "\<exists>u. a < u \<and> u < b \<and> c < u \<and> u < d"
  then show "max a c < min b d" by auto
qed

lemma obstacle_hit_iff:
  "obstacle_hit p pos obs \<longleftrightarrow>
     fsub (fSegDistance obs) 0.5 \<le> pos \<and> pos \<le> fadd (fSegDistance obs) 0.5 \<and>
     (\<exists>u. fsub (fX_Register p) PLAYER_HALF_WIDTH < u \<and>
          u < fadd (fX_Register p) PLAYER_HALF_WIDTH \<and>
          fsub (fOffsetX obs) (fdiv (fWidth obs) 2) < u \<and>
          u < fadd (fOffsetX obs) (fdiv (fWidth obs) 2))"
  unfolding obstacle_hit_def Let_def open_overlap_iff by auto

lemma obstacle_loop_eq:
  "obstacle_loop w pos obss =
     (if \<exists>obs \<in> set obss. obstacle_hit (player w) pos obs then crash w else w)"
  by (induction obss) auto

lemma boundary_check_iff:
  "EnforceBoundaryProtection w =
     (if \<not> bCrashed (player w) \<and>
         (fsub (fX_Register (player w)) PLAYER_HALF_WIDTH \<le> - 1 \<or>
          fadd (fX_Register (player w)) PLAYER_HALF_WIDTH \<ge> 1)
      then crash w else w)"
  by (simp add: EnforceBoundaryProtection_def KPT_vals(3) Let_def)

lemma crash_fields [simp]:
  "bCrashed (player (crash w))" "fSpeed (player (crash w)) = 0"
  "currentState (crash w) = GAME_OVER" "sound_crash (crash w)" "sound_gameover (crash w)"
  "fDistance (player (crash w)) = fDistance (player w)"
  "fX_Register (player (crash w)) = fX_Register (player w)"
  "fHeadingAngle (player (crash w)) = fHeadingAngle (player w)"
  by (simp_all add: crash_def)

lemma update_warning_frame [simp]:
  "player (update_warning w) = player w"
  "currentState (update_warning w) = currentState w"
  "sound_crash (update_warning w) = sound_crash w"
  "sound_gameover (update_warning w) = sound_gameover w"
  "sound_win (update_warning w) = sound_win w"
  "vecTrack (update_warning w) = vecTrack w"
  "fTotalTrackLength (update_warning w) = fTotalTrackLength w"
  by (simp_all add: update_warning_def split: option.splits prod.splits)

lemma CheckObstacleCollision_cases:
  "CheckObstacleCollision w = w \<or>
   (\<not> bCrashed (player w) \<and> currentState w = KERNEL_RUNNING \<and>
    CheckObstacleCollision w = crash w)"
  by (auto simp: CheckObstacleCollision_def obstacle_loop_eq split: prod.splits)

lemma physics_integrate_idle:
  "currentState w \<noteq> KERNEL_RUNNING \<Longrightarrow> physics_integrate dt w = w"
  by (simp add: physics_integrate_def)

subsection \<open>What a step leaves alone\<close>

lemma EnforceBoundaryProtection_cases:
  "EnforceBoundaryProtection w = w \<or>
   (\<not> bCrashed (player w) \<and> EnforceBoundaryProtection w = crash w)"
  by (auto simp: EnforceBoundaryProtection_def Let_def)

lemma fDistance_detectors [simp]:
  "fDistance (player (EnforceBoundaryProtection w)) = fDistance (player w)"
  "fDistance (player (CheckObstacleCollision w)) = fDistance (player w)"
  using EnforceBoundaryProtection_cases[of w] CheckObstacleCollision_cases[of w]
  by auto

lemma fDistance_after_win [simp]:
  "fDistance (player (update_heading dt (update_lateral dt (update_curvature dt w)))) =
     fDistance (player w)"
  by (simp add: update_heading_def update_lateral_def update_curvature_def Let_def)

lemma raw_speed_read_steer [simp]:
  "raw_speed dt (read_steer w) = raw_speed dt w"
  "raw_speed dt (w\<lparr>player := (player w)\<lparr>nSteerState := s\<rparr>\<rparr>) = raw_speed dt w"
  by (simp_all add: raw_speed_def read_steer_def)


lemma fDistance_advance:
  "fDistance (player (advance_distance dt (update_speed dt (read_steer w)))) =
     fadd (fDistance (player w)) (fmul (max (- 15) (min 50 (raw_speed dt w))) (f32 dt))"
  by (simp add: advance_distance_def update_speed_def read_steer_def KPT_vals)

lemma fDistance_physics_integrate:
  "currentState w = KERNEL_RUNNING \<Longrightarrow>
   fDistance (player (physics_integrate dt w)) =
     (if fDistance (player (advance_distance dt (update_speed dt (read_steer w))))
           \<ge> fTotalTrackLength w
      then fTotalTrackLength w
      else fDistance (player (advance_distance dt (update_speed dt (read_steer w)))))"
  by (simp add: physics_integrate_def check_win_def advance_distance_def update_speed_def
      read_steer_def)

subsection \<open>Iterations outside \<open>KERNEL_RUNNING\<close>, and crashed vehicles\<close>

lemmas substep_defs = read_steer_def update_speed_def advance_distance_def check_win_def
  update_curvature_def update_lateral_def update_heading_def

lemma store_controls_frame [simp]:
  "player (store_controls c w) = player w"
  "currentState (store_controls c w) = currentState w"
  "vecTrack (store_controls c w) = vecTrack w"
  "fTotalTrackLength (store_controls c w) = fTotalTrackLength w"
  by (simp_all add: store_controls_def split: prod.splits)

lemma physics_iteration_quiet:
  assumes "bCrashed (player v) \<or>
         (- 1 < fsub (fX_Register (player v)) PLAYER_HALF_WIDTH \<and>
          fadd (fX_Register (player v)) PLAYER_HALF_WIDTH < 1)"
     and "currentState v \<noteq> KERNEL_RUNNING"
   shows "update_warning (CheckObstacleCollision (EnforceBoundaryProtection v)) =
            v\<lparr>warnObstacle := False\<rparr>"
proof -
  have b: "EnforceBoundaryProtection v = v"
    using assms(1) by (auto simp: boundary_check_iff)
  have o: "CheckObstacleCollision v = v"
    using assms(2) by (simp add: CheckObstacleCollision_def)
  show ?thesis using assms(2) by (simp add: b o update_warning_def)
qed

lemma physics_iteration_idle:
  assumes "currentState w \<noteq> KERNEL_RUNNING"
    and "bCrashed (player w) \<or>
         (- 1 < fsub (fX_Register (player w)) PLAYER_HALF_WIDTH \<and>
          fadd (fX_Register (player w)) PLAYER_HALF_WIDTH < 1)"
  shows "physics_iteration dt w = w\<lparr>warnObstacle := False\<rparr>"
  unfolding physics_iteration_def physics_integrate_idle[OF assms(1)]
  by (rule physics_iteration_quiet[OF assms(2,1)])

lemma physics_run_idle:
  "currentState w \<noteq> KERNEL_RUNNING \<Longrightarrow>
   bCrashed (player w) \<or>
     (- 1 < fsub (fX_Register (player w)) PLAYER_HALF_WIDTH \<and>
      fadd (fX_Register (player w)) PLAYER_HALF_WIDTH < 1) \<Longrightarrow>
   player (physics_run dt cs w) = player w \<and>
   currentState (physics_run dt cs w) = currentState w"
proof (induction cs arbitrary: w)
  case Nil
  then show ?case by simp
next
  case (Cons c cs)
  let ?v = "store_controls c w"
  have it: "physics_iteration dt ?v = ?v\<lparr>warnObstacle := False\<rparr>"
    using Cons.prems by (intro physics_iteration_idle) simp_all
  have "player (physics_run dt cs (?v\<lparr>warnObstacle := False\<rparr>)) = player (?v\<lparr>warnObstacle := False\<rparr>) \<and>
        currentState (physics_run dt cs (?v\<lparr>warnObstacle := False\<rparr>)) =
          currentState (?v\<lparr>warnObstacle := False\<rparr>)"
    using Cons.prems by (intro Cons.IH) simp_all
  then show ?case by (simp add: it)
qed

lemma physics_integrate_win:
  assumes "currentState w = KERNEL_RUNNING"
    and "fDistance (player (advance_distance dt (update_speed dt (read_steer w))))
           \<ge> fTotalTrackLength w"
  shows "currentState (physics_integrate dt w) = GAME_WIN"
    and "sound_win (physics_integrate dt w)"
    and "fDistance (player (physics_integrate dt w)) = fTotalTrackLength w"
    and "bCrashed (player (physics_integrate dt w)) = bCrashed (player w)"
  using assms
  by (simp_all add: physics_integrate_def substep_defs Let_def)

lemma physics_integrate_no_win:
  assumes "currentState w = KERNEL_RUNNING"
    and "currentState (physics_integrate dt w) = KERNEL_RUNNING"
  shows "\<not> fDistance (player (advance_distance dt (update_speed dt (read_steer w))))
           \<ge> fTotalTrackLength w"
  using physics_integrate_win(1)[OF assms(1)] assms(2) by auto

lemmas eval_defs = build_defs substep_defs physics_integrate_def physics_iteration_def
  raw_speed_def targetCurv_def update_warning_def EnforceBoundaryProtection_def
  CheckObstacleCollision_def crash_def physics_cursor.simps collision_cursor.simps Let_def

lemma detectors_keep_crashed:
  assumes "bCrashed (player v)"
  shows "EnforceBoundaryProtection v = v" "CheckObstacleCollision v = v"
  using assms by (simp_all add: boundary_check_iff CheckObstacleCollision_def)

lemma physics_integrate_crashed:
  "bCrashed (player (physics_integrate dt w)) = bCrashed (player w)"
  by (simp add: physics_integrate_def substep_defs Let_def)

lemma physics_integrate_state:
  "currentState (physics_integrate dt w) = KERNEL_RUNNING \<Longrightarrow> currentState w = KERNEL_RUNNING"
  by (cases "currentState w = KERNEL_RUNNING") (simp_all add: physics_integrate_def)

lemma detectors_crashed_state:
  "bCrashed (player (CheckObstacleCollision (EnforceBoundaryProtection v))) \<Longrightarrow>
   \<not> bCrashed (player v) \<Longrightarrow>
   currentState (CheckObstacleCollision (EnforceBoundaryProtection v)) = GAME_OVER"
  using EnforceBoundaryProtection_cases[of v]
    CheckObstacleCollision_cases[of "EnforceBoundaryProtection v"]
  by auto

subsection \<open>The accumulator loop\<close>

lemma on_gridI: "x = of_int m * 2 powi k \<Longrightarrow> on_grid k x"
  by (simp add: on_grid_def)

lemma on_gridD: "on_grid k x \<Longrightarrow> x = of_int \<lfloor>x / 2 powi k\<rfloor> * 2 powi k"
  by (simp add: on_grid_def)

lemma physics_loop_grid:
  assumes "0 < D" "- 1074 \<le> k" "0 \<le> M" "M < 2 ^ 53"
  shows "physics_loop (of_int D * 2 powi k) (of_int M * 2 powi k) w =
           Some (of_int (M mod D) * 2 powi k,
                 (physics_iteration (of_int D * 2 powi k) ^^ nat (M div D)) w)"
  using assms(3,4)
proof (induction "nat M" arbitrary: M w rule: less_induct)
  case less
  define g :: real where "g = 2 powi k"
  have g0: "0 < g" by (simp add: g_def)
  have cmp: "of_int M * g \<ge> of_int D * g \<longleftrightarrow> D \<le> M"
    using g0 by simp
  show ?case
  proof (cases "D \<le> M")
    case False
    then have "M div D = 0" "M mod D = M" using less.prems assms(1) by simp_all
    then show ?thesis
      using False cmp by (subst physics_loop.simps) (simp add: g_def)
  next
    case True
    have ex: "dsub (of_int M * g) (of_int D * g) = of_int (M - D) * g"
    proof -
      have "of_int M * g - of_int D * g = of_int (M - D) * 2 powi k"
        by (simp add: g_def algebra_simps)
      moreover have "\<bar>M - D\<bar> < 2 ^ 53"
      proof -
        have "0 \<le> M - D" using True by simp
        moreover have "M - D < 2 ^ 53" using less.prems(2) assms(1) by linarith
        ultimately show ?thesis by (simp only: abs_of_nonneg)
      qed
      ultimately have "f64 (of_int M * g - of_int D * g) = of_int M * g - of_int D * g"
        using assms(2) by (intro f64_exact)
      then show ?thesis by (simp add: dsub_def g_def algebra_simps)
    qed
    have sm: "nat (M - D) < nat M" using True assms(1) by simp
    have ih: "physics_loop (of_int D * 2 powi k) (of_int (M - D) * 2 powi k)
                (physics_iteration (of_int D * 2 powi k) w) =
              Some (of_int ((M - D) mod D) * 2 powi k,
                (physics_iteration (of_int D * 2 powi k) ^^ nat ((M - D) div D))
                  (physics_iteration (of_int D * 2 powi k) w))"
      using True less.prems assms(1) by (intro less.hyps[OF sm]) simp_all
    have md: "(M - D) mod D = M mod D" by simp
    have "(M + D * (- 1)) div D = - 1 + M div D"
      using assms(1) by (intro div_mult_self2) simp
    then have dv: "(M - D) div D = M div D - 1" by simp
    have "0 < M div D" using True assms(1) by (simp add: pos_imp_zdiv_pos_iff)
    then have nt: "nat (M div D) = Suc (nat (M div D - 1))" by simp
    have "physics_loop (of_int D * 2 powi k) (of_int M * 2 powi k) w =
          physics_loop (of_int D * 2 powi k) (of_int (M - D) * 2 powi k)
            (physics_iteration (of_int D * 2 powi k) w)"
      using True cmp ex by (subst physics_loop.simps) (simp add: g_def)
    then show ?thesis
      unfolding ih md dv by (subst nt) (simp add: funpow_swap1)
  qed
qed

lemma grid_floor:
  fixes g :: real
  assumes "0 < D" "0 < g"
  shows "\<lfloor>(of_int M * g) / (of_int D * g)\<rfloor> = M div D"
    and "of_int M * g - of_int \<lfloor>(of_int M * g) / (of_int D * g)\<rfloor> * (of_int D * g) =
           of_int (M mod D) * g"
proof -
  have q: "(of_int M * g) / (of_int D * g) = (of_int M :: real) / of_int D"
    using assms by simp
  show f: "\<lfloor>(of_int M * g) / (of_int D * g)\<rfloor> = M div D"
    unfolding q by (rule floor_divide_of_int_eq)
  have "M = M div D * D + M mod D" by simp
  then have "(of_int M :: real) = of_int (M div D * D + M mod D)" by simp
  then have "(of_int M :: real) = of_int (M div D) * of_int D + of_int (M mod D)"
    by (simp only: of_int_add of_int_mult)
  then show "of_int M * g - of_int \<lfloor>(of_int M * g) / (of_int D * g)\<rfloor> * (of_int D * g) =
           of_int (M mod D) * g"
    unfolding f by (simp add: algebra_simps)
qed

lemma physics_loop_floor:
  assumes "0 < dt" "0 \<le> T" "- 1074 \<le> k" "on_grid k dt" "on_grid k T" "T < 2 ^ 53 * 2 powi k"
  shows "physics_loop dt T w =
           Some (T - of_int \<lfloor>T / dt\<rfloor> * dt, (physics_iteration dt ^^ nat \<lfloor>T / dt\<rfloor>) w)"
    and "0 \<le> T - of_int \<lfloor>T / dt\<rfloor> * dt" and "T - of_int \<lfloor>T / dt\<rfloor> * dt < dt"
proof -
  define g :: real where "g = 2 powi k"
  define D where "D = \<lfloor>dt / g\<rfloor>"
  define M where "M = \<lfloor>T / g\<rfloor>"
  have g0: "0 < g" by (simp add: g_def)
  have dt: "dt = of_int D * g" using on_gridD[OF assms(4)] by (simp add: D_def g_def)
  have T: "T = of_int M * g" using on_gridD[OF assms(5)] by (simp add: M_def g_def)
  have "0 < of_int D * g" using assms(1) dt by simp
  then have D0: "0 < D" using g0 by (simp add: zero_less_mult_iff)
  have "0 \<le> T / g" using assms(2) g0 by simp
  then have M0: "0 \<le> M" by (simp add: M_def)
  have "of_int M * g < 2 ^ 53 * g" using assms(6) T by (simp add: g_def)
  then have "(of_int M :: real) < 2 ^ 53" using g0 by simp
  then have "(of_int M :: real) < of_int (2 ^ 53)" by simp
  then have M1: "M < 2 ^ 53" by (simp only: of_int_less_iff)
  note fl = grid_floor[OF D0 g0, of M]
  note fl2 = fl(2)[unfolded fl(1)]
  note flk = fl(1)[unfolded g_def] fl2[unfolded g_def]
  have l: "physics_loop (of_int D * 2 powi k) (of_int M * 2 powi k) w =
           Some (of_int (M mod D) * 2 powi k,
                 (physics_iteration (of_int D * 2 powi k) ^^ nat (M div D)) w)"
    by (rule physics_loop_grid[OF D0 assms(3) M0 M1])
  show "physics_loop dt T w =
           Some (T - of_int \<lfloor>T / dt\<rfloor> * dt, (physics_iteration dt ^^ nat \<lfloor>T / dt\<rfloor>) w)"
    using l unfolding dt[unfolded g_def] T[unfolded g_def] flk .
  have "0 \<le> M mod D" "M mod D < D" using D0 by simp_all
  then have "(0::real) \<le> of_int (M mod D)" "(of_int (M mod D) :: real) < of_int D"
    by (simp_all only: of_int_0_le_iff of_int_less_iff)
  then have "0 \<le> of_int (M mod D) * g" "of_int (M mod D) * g < of_int D * g"
    using g0 by simp_all
  then show "0 \<le> T - of_int \<lfloor>T / dt\<rfloor> * dt" "T - of_int \<lfloor>T / dt\<rfloor> * dt < dt"
    unfolding dt T fl(1) fl2 by simp_all
qed

text \<open>Every \<^verbatim>\<open>double\<close> from \<open>0\<close> to below \<open>2 ^ 22\<close> shares a grid with \<open>DELTA_T\<close> on
  which it stays below \<open>2 ^ 53\<close> quanta.\<close>

lemma double_grid:
  assumes "is_f64 T" "0 \<le> T" "T < 2 ^ 22"
  shows "\<exists>k. - 1074 \<le> k \<and> on_grid k DELTA_T \<and> on_grid k T \<and> T < 2 ^ 53 * 2 powi k"
proof (cases "T = 0")
  case True
  have "on_grid (- 31) DELTA_T"
    by (rule on_gridI[of _ 8947849]) (simp add: KPT_vals)
  moreover have "on_grid (- 31) T" by (rule on_gridI[of _ 0]) (simp add: True)
  ultimately show ?thesis using True by (intro exI[of _ "- 31"]) simp
next
  case False
  with assms(2) have T0: "0 < T" by simp
  define e where "e = max (ilog2 T) (- 1022)"
  define j where "j = e - 52"
  define n where "n = rne (T / 2 powi j)"
  have "f64 T = of_int n * 2 powi j"
    unfolding f64_def using round_to_pos_grid[OF T0 e_def, where p=53]
    by (simp add: n_def j_def)
  then have Tn: "T = of_int n * 2 powi j" using assms(1) by (simp add: is_f64_def)
  have "T < 2 powi (ilog2 T + 1)" using ilog2_bounds[OF T0] by simp
  also have "\<dots> \<le> 2 powi (e + 1)" by (intro power_int_increasing) (simp_all add: e_def)
  also have "\<dots> = 2 powi (53 + j)" by (simp add: j_def add.commute)
  also have "\<dots> = 2 powi 53 * 2 powi j" by (rule power_int_add) simp
  finally have Tj: "T < 2 ^ 53 * 2 powi j" by simp
  have jm: "- 1074 \<le> j" by (simp add: j_def e_def)
  show ?thesis
  proof (cases "j \<le> - 31")
    case True
    have "(2::real) powi (- 31) = of_int (2 ^ nat (- 31 - j)) * 2 powi j"
      by (rule powi_split[OF True])
    then have "DELTA_T = of_int (8947849 * 2 ^ nat (- 31 - j)) * 2 powi j"
      by (simp add: KPT_vals power_int_minus field_simps)
    then have "on_grid j DELTA_T" by (rule on_gridI)
    moreover have "on_grid j T" using Tn by (rule on_gridI)
    ultimately show ?thesis using jm Tj by blast
  next
    case False
    then have le: "- 31 \<le> j" by simp
    have "(2::real) powi j = of_int (2 ^ nat (j - (- 31))) * 2 powi (- 31)"
      by (rule powi_split[OF le])
    then have "T = of_int (n * 2 ^ nat (j - (- 31))) * 2 powi (- 31)"
      using Tn by simp
    then have "on_grid (- 31) T" by (rule on_gridI)
    moreover have "on_grid (- 31) DELTA_T"
      by (rule on_gridI[of _ 8947849]) (simp add: KPT_vals)
    moreover have "T < 2 ^ 53 * 2 powi (- 31)" using assms(3) by simp
    ultimately show ?thesis by (intro exI[of _ "- 31"]) simp
  qed
qed

lemma physics_loop_double:
  assumes "is_f64 T" "0 \<le> T" "T < 2 ^ 22"
  shows "physics_loop DELTA_T T w =
           Some (T - of_int \<lfloor>T / DELTA_T\<rfloor> * DELTA_T,
                 (physics_iteration DELTA_T ^^ nat \<lfloor>T / DELTA_T\<rfloor>) w)"
    and "0 \<le> T - of_int \<lfloor>T / DELTA_T\<rfloor> * DELTA_T"
    and "T - of_int \<lfloor>T / DELTA_T\<rfloor> * DELTA_T < DELTA_T"
proof -
  from double_grid[OF assms] obtain k where
    k: "- 1074 \<le> k" "on_grid k DELTA_T" "on_grid k T" "T < 2 ^ 53 * 2 powi k" by blast
  have p: "(0::real) < DELTA_T" by (simp add: KPT_vals)
  note r = physics_loop_floor[OF p assms(2) k]
  show "physics_loop DELTA_T T w =
           Some (T - of_int \<lfloor>T / DELTA_T\<rfloor> * DELTA_T,
                 (physics_iteration DELTA_T ^^ nat \<lfloor>T / DELTA_T\<rfloor>) w)"
    by (rule r(1))
  show "0 \<le> T - of_int \<lfloor>T / DELTA_T\<rfloor> * DELTA_T" by (rule r(2))
  show "T - of_int \<lfloor>T / DELTA_T\<rfloor> * DELTA_T < DELTA_T" by (rule r(3))
qed

lemma running_step_distance:
  assumes "currentState w = KERNEL_RUNNING"
    and "currentState (physics_iteration dt w) = KERNEL_RUNNING"
  shows "fDistance (player (physics_iteration dt w)) =
           fadd (fDistance (player w)) (fmul (fSpeed (player (physics_iteration dt w))) (f32 dt))"
proof -
  let ?v = "physics_integrate dt w"
  have st: "currentState (CheckObstacleCollision (EnforceBoundaryProtection ?v)) = KERNEL_RUNNING"
    using assms(2) by (simp add: physics_iteration_def)
  have b: "EnforceBoundaryProtection ?v = ?v"
    using EnforceBoundaryProtection_cases[of ?v]
      CheckObstacleCollision_cases[of "EnforceBoundaryProtection ?v"] st
    by auto
  have o: "CheckObstacleCollision ?v = ?v"
    using CheckObstacleCollision_cases[of ?v] st b by auto
  have rv: "currentState ?v = KERNEL_RUNNING" using st b o by simp
  note nowin = physics_integrate_no_win[OF assms(1) rv]
  have sp: "fSpeed (player ?v) = max (- 15) (min 50 (raw_speed dt w))"
    using assms(1) by (simp add: physics_integrate_def substep_defs Let_def KPT_vals)
  have "player (physics_iteration dt w) = player ?v"
    by (simp add: physics_iteration_def b o)
  then show ?thesis
    using nowin by (simp add: fDistance_physics_integrate[OF assms(1)] sp fDistance_advance)
qed

lemma constant_speed_distance:
  "(\<forall>k \<le> n. currentState ((physics_iteration dt ^^ k) w) = KERNEL_RUNNING) \<Longrightarrow>
   (\<forall>k. 1 \<le> k \<and> k \<le> n \<longrightarrow> fSpeed (player ((physics_iteration dt ^^ k) w)) = s) \<Longrightarrow>
   fDistance (player ((physics_iteration dt ^^ n) w)) =
     ((\<lambda>d. fadd d (fmul s (f32 dt))) ^^ n) (fDistance (player w))"
proof (induction n)
  case 0
  then show ?case by simp
next
  case (Suc n)
  let ?u = "(physics_iteration dt ^^ n) w"
  have r0: "currentState ?u = KERNEL_RUNNING" using Suc.prems(1) by simp
  have r1: "currentState (physics_iteration dt ?u) = KERNEL_RUNNING"
    using Suc.prems(1)[rule_format, of "Suc n"] by simp
  have s1: "fSpeed (player (physics_iteration dt ?u)) = s"
    using Suc.prems(2)[rule_format, of "Suc n"] by simp
  have ih: "fDistance (player ?u) =
      ((\<lambda>d. fadd d (fmul s (f32 dt))) ^^ n) (fDistance (player w))"
    using Suc.prems by (intro Suc.IH) auto
  show ?case
    using running_step_distance[OF r0 r1] by (simp add: s1 ih)
qed

subsection \<open>Iterations of the concrete kernels\<close>



lemma finish_inside_step:
  "physics_iteration DELTA_T finish_inside =
     finish_inside\<lparr>player := (player finish_inside)\<lparr>fDistance := 1000\<rparr>,
       currentState := GAME_WIN, sound_win := True\<rparr>"
  by (simp add: finish_inside_def eval_defs KPT_vals fl_eval)

lemma finish_at_edge_integrate:
  "physics_integrate DELTA_T finish_at_edge =
     finish_at_edge\<lparr>player := (player finish_at_edge)\<lparr>nSteerState := 1,
        fDistance := 1000, fX_Register := 13814359 / 16777216,
        fHeadingAngle := 13645469 / 134217728\<rparr>,
        currentState := GAME_WIN, sound_win := True\<rparr>"
  by (simp add: finish_at_edge_def eval_defs KPT_vals fl_eval)

lemma cruising_step:
  "physics_iteration DELTA_T cruising =
     cruising\<lparr>player := (player cruising)\<lparr>fX_Register := - (13743895 / 549755813888),
       fDistance := 13134507 / 131072, fCurvature := 1006633 / 134217728,
       fPlayerCurvature := 8589935 / 549755813888\<rparr>\<rparr>"
  by (simp add: cruising_def eval_defs KPT_vals fl_eval)

lemma cruising_step2:
  "physics_iteration DELTA_T
     (cruising\<lparr>player := (player cruising)\<lparr>fX_Register := - (13743895 / 549755813888),
       fDistance := 13134507 / 131072, fCurvature := 1006633 / 134217728,
       fPlayerCurvature := 8589935 / 549755813888\<rparr>\<rparr>) =
     cruising\<lparr>player := (player cruising)\<lparr>fX_Register := - (10264973 / 137438953472),
       fDistance := 6580907 / 65536, fCurvature := 8002733 / 536870912,
       fPlayerCurvature := 801951 / 17179869184\<rparr>\<rparr>"
  by (simp add: cruising_def eval_defs KPT_vals fl_eval)

subsection \<open>One-shot flags\<close>

lemma sample_key_fields:
  "lastKey (sample_key k' now s) k = (if k = k' then now else lastKey s k)"
  "input_edge (sample_key k' now s) k =
     (if k = k' then input_edge s k \<or> (now \<and> \<not> lastKey s k) else input_edge s k)"
  "input_escape (sample_key k' now s) = input_escape s"
  by (auto simp: sample_key_def Let_def)

lemma InputThreadProc_edges_fields:
  "lastKey (InputThreadProc_edges down escBit s) k = down k"
  "input_edge (InputThreadProc_edges down escBit s) k =
     (input_edge s k \<or> (down k \<and> \<not> lastKey s k))"
  "input_escape (InputThreadProc_edges down escBit s) = (input_escape s \<or> escBit)"
proof -
  show "lastKey (InputThreadProc_edges down escBit s) k = down k"
    by (cases k) (simp_all add: InputThreadProc_edges_def Let_def sample_key_fields)
  show "input_edge (InputThreadProc_edges down escBit s) k =
     (input_edge s k \<or> (down k \<and> \<not> lastKey s k))"
    by (cases k) (simp_all add: InputThreadProc_edges_def Let_def sample_key_fields)
  show "input_escape (InputThreadProc_edges down escBit s) = (input_escape s \<or> escBit)"
    by (simp add: InputThreadProc_edges_def Let_def sample_key_fields)
qed

declare step.simps [simp del]
declare observe.simps [simp del]

lemma observe_sample: "observe (Sample down escBit) s = []"
  by (simp add: observe.simps)

lemma observe_exchange: "observe (Exchange g) s = [(g, flag_value s g)]"
  by (cases g) (simp_all add: observe.simps)

lemma step_sample_last: "lastKey (step (Sample down escBit) s) k = down k"
  by (simp add: step.simps InputThreadProc_edges_fields)

lemma step_exchange_last: "lastKey (step (Exchange g) s) = lastKey s"
  by (cases g) (simp_all add: step.simps)

lemma step_sample_flag:
  "flag_value (step (Sample down escBit) s) f =
     (flag_value s f \<or> records f (Sample down escBit) s)"
  by (cases f) (simp_all add: step.simps InputThreadProc_edges_fields)

lemma step_exchange_flag:
  "flag_value (step (Exchange g) s) f = (if f = g then False else flag_value s f)"
  by (cases f; cases g) (auto simp: step.simps)

lemma no_store:
  "stores f evs s = 0 \<Longrightarrow>
   count_list (observations evs s) (f, True) + (if flag_value (final evs s) f then 1 else 0) =
     (if flag_value s f then 1 else 0)"
proof (induction evs arbitrary: s)
  case Nil
  then show ?case by simp
next
  case (Cons e evs)
  from Cons.prems have nr: "\<not> records f e s" and rest: "stores f evs (step e s) = 0"
    by (simp_all split: if_splits)
  note ih = Cons.IH[OF rest]
  show ?case
  proof (cases e)
    case (Sample down escBit)
    then show ?thesis using ih nr by (simp add: step_sample_flag observe_sample)
  next
    case (Exchange g)
    show ?thesis
    proof (cases "f = g")
      case True
      then show ?thesis using ih by (simp add: Exchange step_exchange_flag observe_exchange)
    next
      case False
      then show ?thesis using ih by (auto simp: Exchange step_exchange_flag observe_exchange)
    qed
  qed
qed

lemma one_store:
  "\<not> flag_value s f \<Longrightarrow> stores f evs s = 1 \<Longrightarrow>
   count_list (observations evs s) (f, True) + (if flag_value (final evs s) f then 1 else 0) = 1"
proof (induction evs arbitrary: s)
  case Nil
  then show ?case by simp
next
  case (Cons e evs)
  show ?case
  proof (cases "records f e s")
    case True
    with Cons.prems have rest: "stores f evs (step e s) = 0" by simp
    from True obtain down escBit where e: "e = Sample down escBit"
      by (cases e) auto
    have fl: "flag_value (step e s) f" using True by (simp add: e step_sample_flag)
    show ?thesis using no_store[OF rest] fl by (simp add: e observe_sample)
  next
    case False
    with Cons.prems have rest: "stores f evs (step e s) = 1" by simp
    have nf: "\<not> flag_value (step e s) f"
      using False Cons.prems(1)
      by (cases e) (simp_all add: step_sample_flag step_exchange_flag)
    have nobs: "count_list (observe e s) (f, True) = 0"
      using Cons.prems(1) by (cases e) (auto simp: observe_exchange observe_sample)
    show ?thesis using Cons.IH[OF nf rest] nobs by simp
  qed
qed

lemma final_append: "final (a @ b) s = final b (final a s)"
  by (induction a arbitrary: s) simp_all

lemma observations_append:
  "observations (a @ b) s = observations a s @ observations b (final a s)"
  by (induction a arbitrary: s) simp_all

lemma stores_append: "stores f (a @ b) s = stores f a s + stores f b (final a s)"
  by (induction a arbitrary: s) simp_all

lemma stores_edge:
  "stores (Edge k) evs s = rising_edges (lastKey s k) (key_trace k evs)"
proof (induction evs arbitrary: s)
  case Nil
  then show ?case by simp
next
  case (Cons e evs)
  then show ?case
    by (cases e) (simp_all add: step_sample_last step_exchange_last)
qed

lemma stores_escape: "stores Escape evs s = count_list (escape_trace evs) True"
proof (induction evs arbitrary: s)
  case Nil
  then show ?case by simp
next
  case (Cons e evs)
  then show ?case by (cases e) simp_all
qed

lemma exactly_once:
  assumes "\<not> flag_value s f"
    and "stores f pre s = 1"
    and "stores f (pre @ Exchange f # post) s = 1"
  shows "count_list (observations (pre @ Exchange f # post) s) (f, True) = 1"
proof -
  let ?s1 = "final pre s"
  let ?s2 = "step (Exchange f) ?s1"
  have a: "count_list (observations pre s) (f, True) + (if flag_value ?s1 f then 1 else 0) = 1"
    using one_store[OF assms(1,2)] .
  have "stores f (pre @ Exchange f # post) s = stores f pre s + stores f post ?s2"
    by (simp add: stores_append)
  with assms(2,3) have p0: "stores f post ?s2 = 0" by simp
  have nf: "\<not> flag_value ?s2 f" by (simp add: step_exchange_flag)
  have b: "count_list (observations post ?s2) (f, True) = 0"
    using no_store[OF p0] nf by simp
  have "count_list (observations (pre @ Exchange f # post) s) (f, True) =
      count_list (observations pre s) (f, True) + (if flag_value ?s1 f then 1 else 0) +
      count_list (observations post ?s2) (f, True)"
    by (simp add: observations_append observe_exchange)
  with a b show ?thesis by simp
qed

lemma key_trace_append: "key_trace k (a @ b) = key_trace k a @ key_trace k b"
  by (induction k a rule: key_trace.induct) simp_all

lemma escape_trace_append: "escape_trace (a @ b) = escape_trace a @ escape_trace b"
  by (induction a rule: escape_trace.induct) simp_all

lemmas schedule_defs = registers_boot_def space_held_def no_key_def space_schedule_pre_def
  space_schedule_post_def

section \<open>The claims\<close>

text \<open>
  C1, as stated, fails. The boundary check of the same iteration runs after the
  integration block has set \<open>GAME_WIN\<close> and moved the vehicle, and it has no game-state
  guard: a vehicle that crosses the finish and the road limit in one step ends the
  iteration in \<open>GAME_OVER\<close>, and so does any \<open>GAME_WIN\<close> kernel whose vehicle is not
  crashed and outside the limits.
\<close>

theorem win_then_boundary_crash:
  "currentState finish_at_edge = KERNEL_RUNNING \<and>
   \<not> bCrashed (player finish_at_edge) \<and>
   currentState (physics_integrate DELTA_T finish_at_edge) = GAME_WIN \<and>
   fDistance (player (physics_integrate DELTA_T finish_at_edge)) =
     fTotalTrackLength finish_at_edge \<and>
   sound_win (physics_integrate DELTA_T finish_at_edge) \<and>
   fX_Register (player (physics_integrate DELTA_T finish_at_edge)) = 13814359 / 16777216 \<and>
   currentState (physics_iteration DELTA_T finish_at_edge) = GAME_OVER \<and>
   currentState (won_at (f32 0.9)) = GAME_WIN \<and>
   currentState (physics_iteration DELTA_T (won_at (f32 0.9))) = GAME_OVER"
proof -
  have w: "physics_integrate DELTA_T (won_at (f32 0.9)) = won_at (f32 0.9)"
    by (simp add: won_at_def physics_integrate_def)
  show ?thesis
    unfolding physics_iteration_def finish_at_edge_integrate w
    by (simp add: finish_at_edge_def won_at_def build_defs EnforceBoundaryProtection_def
        CheckObstacleCollision_def crash_def KPT_vals Let_def fl_eval)
qed

text \<open>
  C1, amended. When a step in \<open>KERNEL_RUNNING\<close> brings the distance (the binary32 sum of
  line 977) to the track length or beyond, the integration block sets the distance to
  exactly the track length, the game state to \<open>GAME_WIN\<close> and the win signal. If the
  vehicle is then inside the road limits, that is, the test of the boundary check fails
  on it, the iteration ends in \<open>GAME_WIN\<close> and every later iteration, under any
  controls, leaves the game state \<open>GAME_WIN\<close> and the distance at the track length. In
  general, from a \<open>GAME_WIN\<close> kernel whose vehicle is crashed or inside the limits, no
  run of iterations changes the game state or the vehicle.
\<close>

theorem win_is_kept:
  "(currentState w = KERNEL_RUNNING \<and>
    fDistance (player (advance_distance dt (update_speed dt (read_steer w))))
      \<ge> fTotalTrackLength w
    \<longrightarrow> fDistance (player (physics_integrate dt w)) = fTotalTrackLength w \<and>
         currentState (physics_integrate dt w) = GAME_WIN \<and>
         sound_win (physics_integrate dt w))
   \<and> (currentState w = KERNEL_RUNNING \<and>
      fDistance (player (advance_distance dt (update_speed dt (read_steer w))))
        \<ge> fTotalTrackLength w \<and>
      - 1 < fsub (fX_Register (player (physics_integrate dt w))) PLAYER_HALF_WIDTH \<and>
      fadd (fX_Register (player (physics_integrate dt w))) PLAYER_HALF_WIDTH < 1
      \<longrightarrow> currentState (physics_run dt cs (physics_iteration dt w)) = GAME_WIN \<and>
           fDistance (player (physics_run dt cs (physics_iteration dt w))) = fTotalTrackLength w \<and>
           sound_win (physics_iteration dt w))
   \<and> (currentState w = GAME_WIN \<and>
      (bCrashed (player w) \<or>
       (- 1 < fsub (fX_Register (player w)) PLAYER_HALF_WIDTH \<and>
        fadd (fX_Register (player w)) PLAYER_HALF_WIDTH < 1))
      \<longrightarrow> currentState (physics_run dt cs w) = GAME_WIN \<and>
           player (physics_run dt cs w) = player w)
   \<and> fDistance (player (advance_distance dt (update_speed dt (read_steer w)))) =
       fadd (fDistance (player w)) (fmul (max (- 15) (min 50 (raw_speed dt w))) (f32 dt))"
proof (intro conjI impI)
  assume h: "currentState w = KERNEL_RUNNING \<and>
    fDistance (player (advance_distance dt (update_speed dt (read_steer w))))
      \<ge> fTotalTrackLength w"
  show "fDistance (player (physics_integrate dt w)) = fTotalTrackLength w"
    "currentState (physics_integrate dt w) = GAME_WIN"
    "sound_win (physics_integrate dt w)"
    using h physics_integrate_win[of w dt] by simp_all
next
  let ?v = "physics_integrate dt w"
  assume h: "currentState w = KERNEL_RUNNING \<and>
      fDistance (player (advance_distance dt (update_speed dt (read_steer w))))
        \<ge> fTotalTrackLength w \<and>
      - 1 < fsub (fX_Register (player ?v)) PLAYER_HALF_WIDTH \<and>
      fadd (fX_Register (player ?v)) PLAYER_HALF_WIDTH < 1"
  then have v: "currentState ?v = GAME_WIN" "sound_win ?v"
    "fDistance (player ?v) = fTotalTrackLength w"
    using physics_integrate_win[of w dt] by simp_all
  have it: "physics_iteration dt w = ?v\<lparr>warnObstacle := False\<rparr>"
    unfolding physics_iteration_def using h v(1) by (intro physics_iteration_quiet) simp_all
  have run: "player (physics_run dt cs (?v\<lparr>warnObstacle := False\<rparr>)) =
               player (?v\<lparr>warnObstacle := False\<rparr>) \<and>
             currentState (physics_run dt cs (?v\<lparr>warnObstacle := False\<rparr>)) =
               currentState (?v\<lparr>warnObstacle := False\<rparr>)"
    using h v(1) by (intro physics_run_idle) simp_all
  show "currentState (physics_run dt cs (physics_iteration dt w)) = GAME_WIN"
    "fDistance (player (physics_run dt cs (physics_iteration dt w))) = fTotalTrackLength w"
    "sound_win (physics_iteration dt w)"
    using run v by (simp_all add: it)
next
  assume h: "currentState w = GAME_WIN \<and>
      (bCrashed (player w) \<or>
       (- 1 < fsub (fX_Register (player w)) PLAYER_HALF_WIDTH \<and>
        fadd (fX_Register (player w)) PLAYER_HALF_WIDTH < 1))"
  then have "player (physics_run dt cs w) = player w \<and>
             currentState (physics_run dt cs w) = currentState w"
    by (intro physics_run_idle) simp_all
  with h show "currentState (physics_run dt cs w) = GAME_WIN"
    "player (physics_run dt cs w) = player w" by simp_all
next
  show "fDistance (player (advance_distance dt (update_speed dt (read_steer w)))) =
       fadd (fDistance (player w)) (fmul (max (- 15) (min 50 (raw_speed dt w))) (f32 dt))"
    by (rule fDistance_advance)
qed

theorem win_is_kept_witness:
  "currentState finish_inside = KERNEL_RUNNING \<and>
   fDistance (player (advance_distance DELTA_T (update_speed DELTA_T (read_steer finish_inside))))
     \<ge> fTotalTrackLength finish_inside \<and>
   - 1 < fsub (fX_Register (player (physics_integrate DELTA_T finish_inside))) PLAYER_HALF_WIDTH \<and>
   fadd (fX_Register (player (physics_integrate DELTA_T finish_inside))) PLAYER_HALF_WIDTH < 1 \<and>
   currentState (physics_run DELTA_T [(1, True, False), (- 1, False, True)]
     (physics_iteration DELTA_T finish_inside)) = GAME_WIN \<and>
   fDistance (player (physics_run DELTA_T [(1, True, False), (- 1, False, True)]
     (physics_iteration DELTA_T finish_inside))) = 1000"
proof -
  have a: "currentState finish_inside = KERNEL_RUNNING"
    by (simp add: finish_inside_def build_defs Let_def)
  have b: "fDistance (player (advance_distance DELTA_T (update_speed DELTA_T
        (read_steer finish_inside)))) \<ge> fTotalTrackLength finish_inside"
    by (simp add: finish_inside_def build_defs substep_defs raw_speed_def KPT_vals Let_def
        fl_eval)
  have c: "fX_Register (player (physics_integrate DELTA_T finish_inside)) = 0"
    by (simp add: finish_inside_def eval_defs KPT_vals fl_eval)
  have d: "- 1 < fsub 0 PLAYER_HALF_WIDTH" "fadd 0 PLAYER_HALF_WIDTH < 1"
    by (simp_all add: KPT_vals fl_eval)
  have t: "fTotalTrackLength finish_inside = 1000"
    by (simp add: finish_inside_def build_defs Let_def fl_eval)
  show ?thesis
    using win_is_kept [of finish_inside DELTA_T "[(1, True, False), (- 1, False, True)]"] a b d
    by (simp add: c t)
qed

text \<open>
  C2, as stated, fails: the vehicle at \<open>x = 0.19\<close> occupies the lateral interval from
  \<open>0.01\<close> to \<open>0.37\<close>, which overlaps the obstacle's from \<open>-0.2\<close> to \<open>0.2\<close>, and the
  classifier reports a collision.
\<close>

theorem spec_case_019_collides:
  "obstacle_hit (player (one_obstacle_kernel (f32 0.19))) 20 (obst 20 0 (f32 0.4)) \<and>
   currentState (CheckObstacleCollision (one_obstacle_kernel (f32 0.19))) = GAME_OVER \<and>
   bCrashed (player (CheckObstacleCollision (one_obstacle_kernel (f32 0.19))))"
  by (simp add: one_obstacle_kernel_def CheckObstacleCollision_def collision_cursor.simps
      obstacle_hit_def crash_def build_defs KPT_vals Let_def fl_eval)

text \<open>
  C2, amended. For an obstacle at lateral offset \<open>0\<close> and of width \<open>0.4\<close>, and a vehicle
  whose offset in the segment is a binary32 value within \<open>0.5\<close> of the obstacle's, the
  classifier reports a collision at \<open>x = 0.19\<close> and at \<open>x = 0.01\<close>, and none at
  \<open>x = 0.5\<close>; the decimals stand for their binary32 values.
\<close>

theorem obstacle_hit_spec_cases:
  "is_f32 pos \<and> fSegDistance obs - 0.5 \<le> pos \<and> pos \<le> fSegDistance obs + 0.5 \<and>
   fOffsetX obs = 0 \<and> fWidth obs = f32 0.4 \<longrightarrow>
     (fX_Register p = f32 0.19 \<longrightarrow> obstacle_hit p pos obs) \<and>
     (fX_Register p = f32 0.01 \<longrightarrow> obstacle_hit p pos obs) \<and>
     (fX_Register p = f32 0.5 \<longrightarrow> \<not> obstacle_hit p pos obs)"
proof (intro impI)
  assume h: "is_f32 pos \<and> fSegDistance obs - 0.5 \<le> pos \<and> pos \<le> fSegDistance obs + 0.5 \<and>
   fOffsetX obs = 0 \<and> fWidth obs = f32 0.4"
  then have w: "fsub (fSegDistance obs) 0.5 \<le> pos" "pos \<le> fadd (fSegDistance obs) 0.5"
    unfolding fsub_def fadd_def by (auto intro: is_f32_le is_f32_ge)
  from h have o: "fOffsetX obs = 0" "fWidth obs = f32 0.4" by simp_all
  have a: "max (fsub (f32 0.19) PLAYER_HALF_WIDTH) (fsub 0 (fdiv (f32 0.4) 2))
           < min (fadd (f32 0.19) PLAYER_HALF_WIDTH) (fadd 0 (fdiv (f32 0.4) 2))"
    by (simp add: KPT_vals fl_eval)
  have b: "max (fsub (f32 0.01) PLAYER_HALF_WIDTH) (fsub 0 (fdiv (f32 0.4) 2))
           < min (fadd (f32 0.01) PLAYER_HALF_WIDTH) (fadd 0 (fdiv (f32 0.4) 2))"
    by (simp add: KPT_vals fl_eval)
  have c: "\<not> max (fsub (f32 0.5) PLAYER_HALF_WIDTH) (fsub 0 (fdiv (f32 0.4) 2))
           < min (fadd (f32 0.5) PLAYER_HALF_WIDTH) (fadd 0 (fdiv (f32 0.4) 2))"
    by (simp add: KPT_vals fl_eval)
  show "(fX_Register p = f32 0.19 \<longrightarrow> obstacle_hit p pos obs) \<and>
     (fX_Register p = f32 0.01 \<longrightarrow> obstacle_hit p pos obs) \<and>
     (fX_Register p = f32 0.5 \<longrightarrow> \<not> obstacle_hit p pos obs)"
    unfolding obstacle_hit_def Let_def o using w a b c by auto
qed

theorem obstacle_hit_spec_cases_witness:
  "is_f32 (f32 20.3) \<and>
   fSegDistance (obst 20 0 (f32 0.4)) - 0.5 \<le> f32 20.3 \<and>
   f32 20.3 \<le> fSegDistance (obst 20 0 (f32 0.4)) + 0.5 \<and>
   fOffsetX (obst 20 0 (f32 0.4)) = 0 \<and> fWidth (obst 20 0 (f32 0.4)) = f32 0.4 \<and>
   obstacle_hit (PlayerPCB_default\<lparr>fX_Register := f32 0.19\<rparr>) (f32 20.3) (obst 20 0 (f32 0.4)) \<and>
   obstacle_hit (PlayerPCB_default\<lparr>fX_Register := f32 0.01\<rparr>) (f32 20.3) (obst 20 0 (f32 0.4)) \<and>
   \<not> obstacle_hit (PlayerPCB_default\<lparr>fX_Register := f32 0.5\<rparr>) (f32 20.3) (obst 20 0 (f32 0.4))"
proof -
  have f: "is_f32 (f32 20.3)" by simp
  have h: "fSegDistance (obst 20 0 (f32 0.4)) - 0.5 \<le> f32 20.3 \<and>
   f32 20.3 \<le> fSegDistance (obst 20 0 (f32 0.4)) + 0.5 \<and>
   fOffsetX (obst 20 0 (f32 0.4)) = 0 \<and> fWidth (obst 20 0 (f32 0.4)) = f32 0.4"
    by (simp add: obst_def fl_eval)
  have x: "fX_Register (PlayerPCB_default\<lparr>fX_Register := f32 0.19\<rparr>) = f32 0.19"
    "fX_Register (PlayerPCB_default\<lparr>fX_Register := f32 0.01\<rparr>) = f32 0.01"
    "fX_Register (PlayerPCB_default\<lparr>fX_Register := f32 0.5\<rparr>) = f32 0.5"
    by simp_all
  show ?thesis
    using f h x
      obstacle_hit_spec_cases [of "f32 20.3" "obst 20 0 (f32 0.4)"
        "PlayerPCB_default\<lparr>fX_Register := f32 0.19\<rparr>"]
      obstacle_hit_spec_cases [of "f32 20.3" "obst 20 0 (f32 0.4)"
        "PlayerPCB_default\<lparr>fX_Register := f32 0.01\<rparr>"]
      obstacle_hit_spec_cases [of "f32 20.3" "obst 20 0 (f32 0.4)"
        "PlayerPCB_default\<lparr>fX_Register := f32 0.5\<rparr>"]
    by blast
qed

text \<open>
  C3, as stated, fails. The two sums of the test are binary32 sums, and the half width
  is the binary32 value of \<open>0.18\<close>, which is \<open>3019899 / 2 ^ 24\<close> and lies above \<open>0.18\<close>.
  A vehicle at the binary32 value of \<open>0.82\<close> has \<open>x + 0.18 < 1\<close> and \<open>-1 < x - 0.18\<close>,
  yet its \<open>playerRight\<close> is exactly \<open>1\<close>, and the check crashes it.
\<close>

theorem boundary_crash_at_082:
  "fX_Register (player kernel_at_082) = 13757317 / 16777216 \<and>
   \<not> bCrashed (player kernel_at_082) \<and>
   - 1 < fX_Register (player kernel_at_082) - 0.18 \<and>
   fX_Register (player kernel_at_082) + 0.18 < 1 \<and>
   fadd (fX_Register (player kernel_at_082)) PLAYER_HALF_WIDTH = 1 \<and>
   bCrashed (player (EnforceBoundaryProtection kernel_at_082)) \<and>
   fSpeed (player (EnforceBoundaryProtection kernel_at_082)) = 0 \<and>
   currentState (EnforceBoundaryProtection kernel_at_082) = GAME_OVER"
proof -
  have x: "fX_Register (player kernel_at_082) = 13757317 / 16777216"
    "\<not> bCrashed (player kernel_at_082)"
    by (simp_all add: kernel_at_082_def build_defs Let_def fl_eval)
  have r: "fadd (fX_Register (player kernel_at_082)) PLAYER_HALF_WIDTH = 1"
    unfolding x by (simp add: KPT_vals fl_eval)
  have b: "EnforceBoundaryProtection kernel_at_082 = crash kernel_at_082"
    using x(2) r by (simp add: boundary_check_iff)
  show ?thesis
    using x r by (simp add: b)
qed

text \<open>
  C3, amended. The boundary check crashes the vehicle exactly when the vehicle is not
  yet crashed and \<open>x - h \<le> -1\<close> or \<open>x + h \<ge> 1\<close>, where the difference and the sum are
  rounded to binary32 and \<open>h\<close> is the binary32 value of \<open>0.18\<close>. For a binary32 \<open>x\<close>
  that is the case exactly when \<open>x \<le> - 13757317 / 2 ^ 24\<close> or
  \<open>x \<ge> 13757317 / 2 ^ 24\<close>, the binary32 value of \<open>0.82\<close>. A crash sets \<open>bCrashed\<close>,
  zeroes the speed, moves the game state to \<open>GAME_OVER\<close> and raises the crash and
  game-over signals; in every other case the kernel is returned as it was. At the
  binary32 value of \<open>0.80\<close> nothing changes; at that of \<open>0.83\<close> a vehicle that is not
  crashed crashes.
\<close>

theorem EnforceBoundaryProtection_crash_iff:
  "EnforceBoundaryProtection w =
     (if \<not> bCrashed (player w) \<and>
         (fsub (fX_Register (player w)) PLAYER_HALF_WIDTH \<le> - 1 \<or>
          fadd (fX_Register (player w)) PLAYER_HALF_WIDTH \<ge> 1)
      then w\<lparr>player := (player w)\<lparr>bCrashed := True, fSpeed := 0\<rparr>,
             currentState := GAME_OVER, sound_crash := True, sound_gameover := True\<rparr>
      else w)
   \<and> PLAYER_HALF_WIDTH = 3019899 / 16777216
   \<and> (is_f32 (fX_Register (player w)) \<longrightarrow>
        ((fsub (fX_Register (player w)) PLAYER_HALF_WIDTH \<le> - 1 \<or>
          fadd (fX_Register (player w)) PLAYER_HALF_WIDTH \<ge> 1) \<longleftrightarrow>
         (fX_Register (player w) \<le> - (13757317 / 16777216) \<or>
          fX_Register (player w) \<ge> 13757317 / 16777216)))
   \<and> (fX_Register (player w) = f32 0.80 \<longrightarrow> EnforceBoundaryProtection w = w)
   \<and> (fX_Register (player w) = f32 0.83 \<and> \<not> bCrashed (player w) \<longrightarrow>
        EnforceBoundaryProtection w =
          w\<lparr>player := (player w)\<lparr>bCrashed := True, fSpeed := 0\<rparr>,
            currentState := GAME_OVER, sound_crash := True, sound_gameover := True\<rparr>)"
proof (intro conjI impI)
  show "EnforceBoundaryProtection w =
     (if \<not> bCrashed (player w) \<and>
         (fsub (fX_Register (player w)) PLAYER_HALF_WIDTH \<le> - 1 \<or>
          fadd (fX_Register (player w)) PLAYER_HALF_WIDTH \<ge> 1)
      then w\<lparr>player := (player w)\<lparr>bCrashed := True, fSpeed := 0\<rparr>,
             currentState := GAME_OVER, sound_crash := True, sound_gameover := True\<rparr>
      else w)"
    by (simp add: boundary_check_iff crash_def)
next
  show "PLAYER_HALF_WIDTH = 3019899 / 16777216" by (rule KPT_vals)
next
  assume "is_f32 (fX_Register (player w))"
  then show "(fsub (fX_Register (player w)) PLAYER_HALF_WIDTH \<le> - 1 \<or>
          fadd (fX_Register (player w)) PLAYER_HALF_WIDTH \<ge> 1) \<longleftrightarrow>
         (fX_Register (player w) \<le> - (13757317 / 16777216) \<or>
          fX_Register (player w) \<ge> 13757317 / 16777216)"
    by (simp only: fsub_half_width_iff fadd_half_width_iff)
next
  assume x: "fX_Register (player w) = f32 0.80"
  have "\<not> (fsub (f32 0.80) PLAYER_HALF_WIDTH \<le> - 1 \<or> fadd (f32 0.80) PLAYER_HALF_WIDTH \<ge> 1)"
    by (simp add: KPT_vals fl_eval)
  then show "EnforceBoundaryProtection w = w"
    unfolding boundary_check_iff x by simp
next
  assume h: "fX_Register (player w) = f32 0.83 \<and> \<not> bCrashed (player w)"
  then have x: "fX_Register (player w) = f32 0.83" and c: "\<not> bCrashed (player w)"
    by simp_all
  have "fadd (f32 0.83) PLAYER_HALF_WIDTH \<ge> 1"
    by (simp add: KPT_vals fl_eval)
  then show "EnforceBoundaryProtection w =
          w\<lparr>player := (player w)\<lparr>bCrashed := True, fSpeed := 0\<rparr>,
            currentState := GAME_OVER, sound_crash := True, sound_gameover := True\<rparr>"
    unfolding boundary_check_iff x using c by (simp add: crash_def)
qed

theorem EnforceBoundaryProtection_crash_iff_witness:
  "fX_Register (player (race_at 2 (f32 0.80) 10)) = f32 0.80 \<and>
   EnforceBoundaryProtection (race_at 2 (f32 0.80) 10) = race_at 2 (f32 0.80) 10 \<and>
   fX_Register (player (race_at 2 (f32 0.83) 10)) = f32 0.83 \<and>
   is_f32 (fX_Register (player (race_at 2 (f32 0.83) 10))) \<and>
   fX_Register (player (race_at 2 (f32 0.83) 10)) \<ge> 13757317 / 16777216 \<and>
   fadd (fX_Register (player (race_at 2 (f32 0.83) 10))) PLAYER_HALF_WIDTH \<ge> 1 \<and>
   \<not> bCrashed (player (race_at 2 (f32 0.83) 10)) \<and>
   currentState (EnforceBoundaryProtection (race_at 2 (f32 0.83) 10)) = GAME_OVER \<and>
   bCrashed (player (EnforceBoundaryProtection (race_at 2 (f32 0.83) 10)))"
proof -
  let ?a = "race_at 2 (f32 0.80) 10" and ?b = "race_at 2 (f32 0.83) 10"
  have a: "fX_Register (player ?a) = f32 0.80"
    by (simp add: build_defs Let_def)
  have b: "fX_Register (player ?b) = f32 0.83" "\<not> bCrashed (player ?b)"
    by (simp_all add: build_defs Let_def)
  have f: "is_f32 (fX_Register (player ?b))" unfolding b by simp
  have g: "fX_Register (player ?b) \<ge> 13757317 / 16777216"
    unfolding b by (simp add: fl_eval)
  note ia = EnforceBoundaryProtection_crash_iff [of ?a]
  note ib = EnforceBoundaryProtection_crash_iff [of ?b]
  have 1: "EnforceBoundaryProtection ?a = ?a" using ia a by blast
  have 2: "fadd (fX_Register (player ?b)) PLAYER_HALF_WIDTH \<ge> 1"
  proof -
    have "(fsub (fX_Register (player ?b)) PLAYER_HALF_WIDTH \<le> - 1 \<or>
          fadd (fX_Register (player ?b)) PLAYER_HALF_WIDTH \<ge> 1) \<longleftrightarrow>
         (fX_Register (player ?b) \<le> - (13757317 / 16777216) \<or>
          fX_Register (player ?b) \<ge> 13757317 / 16777216)"
      using ib f by blast
    moreover have "\<not> fsub (fX_Register (player ?b)) PLAYER_HALF_WIDTH \<le> - 1"
      unfolding b by (simp add: KPT_vals fl_eval)
    ultimately show ?thesis using g by blast
  qed
  have 3: "EnforceBoundaryProtection ?b =
      ?b\<lparr>player := (player ?b)\<lparr>bCrashed := True, fSpeed := 0\<rparr>,
        currentState := GAME_OVER, sound_crash := True, sound_gameover := True\<rparr>"
    using ib b by blast
  have 4: "currentState (EnforceBoundaryProtection ?b) = GAME_OVER"
    "bCrashed (player (EnforceBoundaryProtection ?b))"
    unfolding 3 by simp_all
  show ?thesis using a 1 b f g 2 4 by blast
qed

text \<open>
  C4, as stated, fails where two edges touch after rounding. On map 2 at distance
  \<open>620\<close> the vehicle is level with the obstacle whose left edge is at \<open>0.25\<close>. With the
  vehicle at the binary32 value of \<open>0.07\<close> the real number \<open>x + 0.18\<close> lies above
  \<open>0.25\<close>, and so does \<open>x\<close> plus the stored half width, so the open intervals overlap;
  the binary32 sum \<open>fPlayerRight\<close> is exactly \<open>0.25\<close>, and the check reports no
  collision.
\<close>

theorem touching_edges_do_not_collide:
  "\<not> bCrashed (player kernel_touching_obstacle) \<and>
   currentState kernel_touching_obstacle = KERNEL_RUNNING \<and>
   collision_cursor (vecTrack kernel_touching_obstacle)
     (fDistance (player kernel_touching_obstacle)) 0 0 = (20, 600, 4) \<and>
   vecObstacles (vecTrack kernel_touching_obstacle ! 4) =
     [obst 20 (f32 0.4) (f32 0.3), obst 70 (- 0.5) (f32 0.4)] \<and>
   \<bar>20 - fSegDistance (obst 20 (f32 0.4) (f32 0.3))\<bar> \<le> (0.5::real) \<and>
   fX_Register (player kernel_touching_obstacle) - 0.18 < 0.2500000001 \<and>
   0.2500000001 < fX_Register (player kernel_touching_obstacle) + 0.18 \<and>
   0.2500000001 < fX_Register (player kernel_touching_obstacle) + PLAYER_HALF_WIDTH \<and>
   fOffsetX (obst 20 (f32 0.4) (f32 0.3)) - fWidth (obst 20 (f32 0.4) (f32 0.3)) / 2
     < 0.2500000001 \<and>
   0.2500000001
     < fOffsetX (obst 20 (f32 0.4) (f32 0.3)) + fWidth (obst 20 (f32 0.4) (f32 0.3)) / 2 \<and>
   fadd (fX_Register (player kernel_touching_obstacle)) PLAYER_HALF_WIDTH = 1 / 4 \<and>
   fsub (fOffsetX (obst 20 (f32 0.4) (f32 0.3))) (fdiv (fWidth (obst 20 (f32 0.4) (f32 0.3))) 2)
     = 1 / 4 \<and>
   CheckObstacleCollision kernel_touching_obstacle = kernel_touching_obstacle"
proof -
  let ?w = kernel_touching_obstacle
  have st: "\<not> bCrashed (player ?w)" "currentState ?w = KERNEL_RUNNING"
    by (simp_all add: kernel_touching_obstacle_def build_defs Let_def)
  have cur: "collision_cursor (vecTrack ?w) (fDistance (player ?w)) 0 0 = (20, 600, 4)"
    by (simp add: kernel_touching_obstacle_def build_defs Let_def collision_cursor.simps fl_eval)
  have obs: "vecObstacles (vecTrack ?w ! 4) =
      [obst 20 (f32 0.4) (f32 0.3), obst 70 (- 0.5) (f32 0.4)]"
    by (simp add: kernel_touching_obstacle_def build_defs Let_def)
  have len: "(4::nat) < length (vecTrack ?w)"
    by (simp add: kernel_touching_obstacle_def build_defs Let_def)
  have x: "fX_Register (player ?w) = 9395241 / 134217728"
    by (simp add: kernel_touching_obstacle_def build_defs Let_def fl_eval)
  have re: "\<bar>20 - fSegDistance (obst 20 (f32 0.4) (f32 0.3))\<bar> \<le> (0.5::real)"
    "fX_Register (player ?w) - 0.18 < 0.2500000001"
    "0.2500000001 < fX_Register (player ?w) + 0.18"
    "0.2500000001 < fX_Register (player ?w) + PLAYER_HALF_WIDTH"
    "fOffsetX (obst 20 (f32 0.4) (f32 0.3)) - fWidth (obst 20 (f32 0.4) (f32 0.3)) / 2
       < 0.2500000001"
    "0.2500000001
       < fOffsetX (obst 20 (f32 0.4) (f32 0.3)) + fWidth (obst 20 (f32 0.4) (f32 0.3)) / 2"
    by (simp_all add: x obst_def KPT_vals fl_eval)
  have fl: "fadd (fX_Register (player ?w)) PLAYER_HALF_WIDTH = 1 / 4"
    "fsub (fOffsetX (obst 20 (f32 0.4) (f32 0.3))) (fdiv (fWidth (obst 20 (f32 0.4) (f32 0.3))) 2)
       = 1 / 4"
    by (simp_all add: x obst_def KPT_vals fl_eval)
  have t: "\<not> max a (c::real) < min c b" for a b c
    by (auto simp: max_def min_def)
  have h1: "\<not> obstacle_hit (player ?w) 20 (obst 20 (f32 0.4) (f32 0.3))"
  proof
    assume "obstacle_hit (player ?w) 20 (obst 20 (f32 0.4) (f32 0.3))"
    then have "max (fsub (fX_Register (player ?w)) PLAYER_HALF_WIDTH)
        (fsub (fOffsetX (obst 20 (f32 0.4) (f32 0.3)))
           (fdiv (fWidth (obst 20 (f32 0.4) (f32 0.3))) 2))
      < min (fadd (fX_Register (player ?w)) PLAYER_HALF_WIDTH)
        (fadd (fOffsetX (obst 20 (f32 0.4) (f32 0.3)))
           (fdiv (fWidth (obst 20 (f32 0.4) (f32 0.3))) 2))"
      unfolding obstacle_hit_def Let_def by (simp split: if_splits)
    then show False unfolding fl using t by blast
  qed
  have h2: "\<not> obstacle_hit (player ?w) 20 (obst 70 (- 0.5) (f32 0.4))"
    by (simp add: obstacle_hit_def obst_def fl_eval)
  have res: "CheckObstacleCollision ?w = ?w"
    unfolding CheckObstacleCollision_def cur using st len h1 h2 by (simp add: obs)
  show ?thesis using st cur obs re fl res by blast
qed

text \<open>
  C4, amended. The obstacle check does nothing unless the vehicle is not crashed and the
  game state is \<open>KERNEL_RUNNING\<close>. Otherwise it resolves the active segment and the
  offset \<open>pos\<close> inside it, and it crashes the vehicle exactly when that segment exists
  and holds an obstacle with \<open>fSegDistance - 0.5 \<le> pos \<le> fSegDistance + 0.5\<close> whose
  open lateral interval meets the open interval of the vehicle, where the two bounds of
  the window and the four ends of the intervals are the binary32 results of the
  operations that form them: intervals whose rounded ends only touch do not collide.
  The crash is the one of the boundary check. The loop returns at the first such
  obstacle in list order: once a prefix of the list holds a hit, what follows the
  prefix has no influence.
\<close>

theorem CheckObstacleCollision_first_overlap:
  "CheckObstacleCollision w =
     (if \<not> bCrashed (player w) \<and> currentState w = KERNEL_RUNNING \<and>
         (case collision_cursor (vecTrack w) (fDistance (player w)) 0 0 of
            (pos, fSegStartDistance, sec) \<Rightarrow>
              sec < length (vecTrack w) \<and>
              (\<exists>obs \<in> set (vecObstacles (vecTrack w ! sec)).
                 fsub (fSegDistance obs) 0.5 \<le> pos \<and> pos \<le> fadd (fSegDistance obs) 0.5 \<and>
                 (\<exists>u. fsub (fX_Register (player w)) PLAYER_HALF_WIDTH < u \<and>
                      u < fadd (fX_Register (player w)) PLAYER_HALF_WIDTH \<and>
                      fsub (fOffsetX obs) (fdiv (fWidth obs) 2) < u \<and>
                      u < fadd (fOffsetX obs) (fdiv (fWidth obs) 2))))
      then w\<lparr>player := (player w)\<lparr>bCrashed := True, fSpeed := 0\<rparr>,
             currentState := GAME_OVER, sound_crash := True, sound_gameover := True\<rparr>
      else w)
   \<and> ((\<exists>obs \<in> set pre. obstacle_hit (player w) pos' obs) \<longrightarrow>
        obstacle_loop w pos' (pre @ post) = obstacle_loop w pos' pre)"
proof
  show "CheckObstacleCollision w =
     (if \<not> bCrashed (player w) \<and> currentState w = KERNEL_RUNNING \<and>
         (case collision_cursor (vecTrack w) (fDistance (player w)) 0 0 of
            (pos, fSegStartDistance, sec) \<Rightarrow>
              sec < length (vecTrack w) \<and>
              (\<exists>obs \<in> set (vecObstacles (vecTrack w ! sec)).
                 fsub (fSegDistance obs) 0.5 \<le> pos \<and> pos \<le> fadd (fSegDistance obs) 0.5 \<and>
                 (\<exists>u. fsub (fX_Register (player w)) PLAYER_HALF_WIDTH < u \<and>
                      u < fadd (fX_Register (player w)) PLAYER_HALF_WIDTH \<and>
                      fsub (fOffsetX obs) (fdiv (fWidth obs) 2) < u \<and>
                      u < fadd (fOffsetX obs) (fdiv (fWidth obs) 2))))
      then w\<lparr>player := (player w)\<lparr>bCrashed := True, fSpeed := 0\<rparr>,
             currentState := GAME_OVER, sound_crash := True, sound_gameover := True\<rparr>
      else w)"
    unfolding CheckObstacleCollision_def obstacle_loop_eq obstacle_hit_iff crash_def
    by (auto split: prod.splits)
next
  show "(\<exists>obs \<in> set pre. obstacle_hit (player w) pos' obs) \<longrightarrow>
        obstacle_loop w pos' (pre @ post) = obstacle_loop w pos' pre"
    by (auto simp: obstacle_loop_eq)
qed

theorem CheckObstacleCollision_first_overlap_witness:
  "\<not> bCrashed (player kernel_at_obstacle) \<and>
   currentState kernel_at_obstacle = KERNEL_RUNNING \<and>
   collision_cursor (vecTrack kernel_at_obstacle) (fDistance (player kernel_at_obstacle)) 0 0
     = (330957 / 16384, 600, 4) \<and>
   obstacle_hit (player kernel_at_obstacle) (330957 / 16384) (obst 20 (f32 0.4) (f32 0.3)) \<and>
   currentState (CheckObstacleCollision kernel_at_obstacle) = GAME_OVER \<and>
   bCrashed (player (CheckObstacleCollision kernel_at_obstacle)) \<and>
   obstacle_loop kernel_at_obstacle (330957 / 16384)
       ([obst 20 (f32 0.4) (f32 0.3)] @ [obst 70 (- 0.5) (f32 0.4)]) =
     obstacle_loop kernel_at_obstacle (330957 / 16384) [obst 20 (f32 0.4) (f32 0.3)]"
proof -
  let ?w = kernel_at_obstacle
  let ?o = "obst 20 (f32 0.4) (f32 0.3)"
  let ?p = "330957 / 16384 :: real"
  have st: "\<not> bCrashed (player ?w)" "currentState ?w = KERNEL_RUNNING"
    by (simp_all add: kernel_at_obstacle_def build_defs Let_def)
  have cur: "collision_cursor (vecTrack ?w) (fDistance (player ?w)) 0 0 = (?p, 600, 4)"
    by (simp add: kernel_at_obstacle_def build_defs Let_def collision_cursor.simps fl_eval)
  have obs: "vecObstacles (vecTrack ?w ! 4) = [?o, obst 70 (- 0.5) (f32 0.4)]"
    by (simp add: kernel_at_obstacle_def build_defs Let_def)
  have len: "(4::nat) < length (vecTrack ?w)"
    by (simp add: kernel_at_obstacle_def build_defs Let_def)
  have x: "fX_Register (player ?w) = 5033165 / 16777216"
    by (simp add: kernel_at_obstacle_def build_defs Let_def fl_eval)
  have hit: "obstacle_hit (player ?w) ?p ?o"
    by (simp add: obstacle_hit_def x obst_def KPT_vals Let_def fl_eval)
  have cond: "\<not> bCrashed (player ?w) \<and> currentState ?w = KERNEL_RUNNING \<and>
         (case collision_cursor (vecTrack ?w) (fDistance (player ?w)) 0 0 of
            (pos, fSegStartDistance, sec) \<Rightarrow>
              sec < length (vecTrack ?w) \<and>
              (\<exists>obs \<in> set (vecObstacles (vecTrack ?w ! sec)).
                 fsub (fSegDistance obs) 0.5 \<le> pos \<and> pos \<le> fadd (fSegDistance obs) 0.5 \<and>
                 (\<exists>u. fsub (fX_Register (player ?w)) PLAYER_HALF_WIDTH < u \<and>
                      u < fadd (fX_Register (player ?w)) PLAYER_HALF_WIDTH \<and>
                      fsub (fOffsetX obs) (fdiv (fWidth obs) 2) < u \<and>
                      u < fadd (fOffsetX obs) (fdiv (fWidth obs) 2))))"
    unfolding cur using st len hit[unfolded obstacle_hit_iff] by (simp add: obs)
  have pre: "\<exists>obs \<in> set [?o]. obstacle_hit (player ?w) ?p obs"
    using hit by simp
  note inst = CheckObstacleCollision_first_overlap
    [of ?w "[?o]" ?p "[obst 70 (- 0.5) (f32 0.4)]"]
  have res: "CheckObstacleCollision ?w =
      ?w\<lparr>player := (player ?w)\<lparr>bCrashed := True, fSpeed := 0\<rparr>,
         currentState := GAME_OVER, sound_crash := True, sound_gameover := True\<rparr>"
    unfolding inst[THEN conjunct1] by (rule if_P[OF cond])
  have loop: "obstacle_loop ?w ?p ([?o] @ [obst 70 (- 0.5) (f32 0.4)]) =
     obstacle_loop ?w ?p [?o]"
    using inst[THEN conjunct2] pre by blast
  show ?thesis
    using st cur hit loop by (simp add: res)
qed

text \<open>
  C5, as stated, fails in its last part. The speed can be the same after every step
  while the distance advances by less than steps times speed times \<open>dt\<close>: the vehicle
  at top speed crosses the finish in the first of two steps, the distance is clamped to
  the track length, and the second step runs in \<open>GAME_WIN\<close> and moves nothing. The
  accumulated time is the \<^verbatim>\<open>double\<close> value of \<open>0.009\<close>.
\<close>

theorem constant_speed_across_finish:
  "physics_loop DELTA_T (f64 0.009) finish_inside =
     Some (384306917662523 / 576460752303423488,
           physics_iteration DELTA_T (physics_iteration DELTA_T finish_inside)) \<and>
   \<lfloor>f64 0.009 / DELTA_T\<rfloor> = 2 \<and>
   fSpeed (player finish_inside) = 50 \<and>
   fSpeed (player (physics_iteration DELTA_T finish_inside)) = 50 \<and>
   fSpeed (player (physics_iteration DELTA_T (physics_iteration DELTA_T finish_inside))) = 50 \<and>
   fDistance (player (physics_iteration DELTA_T (physics_iteration DELTA_T finish_inside)))
     - fDistance (player finish_inside) = 819 / 8192 \<and>
   of_int \<lfloor>f64 0.009 / DELTA_T\<rfloor> * 50 * DELTA_T = (223696225 / 536870912 :: real)"
proof -
  let ?k1 = "finish_inside\<lparr>player := (player finish_inside)\<lparr>fDistance := 1000\<rparr>,
     currentState := GAME_WIN, sound_win := True\<rparr>"
  have i2: "physics_iteration DELTA_T ?k1 = ?k1\<lparr>warnObstacle := False\<rparr>"
    by (rule physics_iteration_idle)
      (simp_all add: finish_inside_def build_defs Let_def KPT_vals fl_eval)
  have T: "f64 0.009 = 5188146770730811 / 576460752303423488"
    by (simp add: fl_eval)
  have b1: "is_f64 (f64 0.009)" by simp
  have b2: "0 \<le> f64 0.009" "f64 0.009 < 2 ^ 22"
    unfolding T by simp_all
  note b = b1 b2
  have f: "\<lfloor>f64 0.009 / DELTA_T\<rfloor> = 2" unfolding T by (simp add: KPT_vals)
  have r: "f64 0.009 - of_int \<lfloor>f64 0.009 / DELTA_T\<rfloor> * DELTA_T =
      384306917662523 / 576460752303423488"
    unfolding f T by (simp add: KPT_vals)
  have t: "(physics_iteration DELTA_T ^^ nat \<lfloor>f64 0.009 / DELTA_T\<rfloor>) finish_inside =
      physics_iteration DELTA_T (physics_iteration DELTA_T finish_inside)"
    unfolding f by (simp add: numeral_2_eq_2)
  have l: "physics_loop DELTA_T (f64 0.009) finish_inside =
      Some (384306917662523 / 576460752303423488,
        physics_iteration DELTA_T (physics_iteration DELTA_T finish_inside))"
    using physics_loop_double(1)[OF b, of finish_inside] unfolding r t .
  have v: "fSpeed (player finish_inside) = 50" "fDistance (player finish_inside) = 8191181 / 8192"
    by (simp_all add: finish_inside_def build_defs Let_def fl_eval)
  have d: "fSpeed (player (physics_iteration DELTA_T finish_inside)) = 50"
    "fSpeed (player (physics_iteration DELTA_T (physics_iteration DELTA_T finish_inside))) = 50"
    "fDistance (player (physics_iteration DELTA_T (physics_iteration DELTA_T finish_inside)))
       - fDistance (player finish_inside) = 819 / 8192"
    by (simp_all add: finish_inside_step i2 v)
  have e: "of_int \<lfloor>f64 0.009 / DELTA_T\<rfloor> * 50 * DELTA_T = (223696225 / 536870912 :: real)"
    unfolding f by (simp add: KPT_vals)
  show ?thesis using l f v(1) d e by blast
qed

text \<open>
  C5, amended. Take a step \<open>dt > 0\<close> and an accumulated time \<open>T \<ge> 0\<close> that are integer
  multiples of one power of two \<open>2 powi k\<close>, not below the smallest positive \<^verbatim>\<open>double\<close>,
  with \<open>T\<close> below \<open>2 ^ 53\<close> such multiples: then every subtraction of the loop is exact,
  the loop ends after exactly \<open>\<lfloor>T / dt\<rfloor>\<close> iterations and leaves the accumulator at
  \<open>T - \<lfloor>T / dt\<rfloor> * dt\<close>, which lies in \<open>[0, dt)\<close>. The step of the program is
  \<open>DELTA_T = 8947849 / 2 ^ 31\<close>, the binary32 quotient of \<open>1\<close> and \<open>240\<close>, and with it
  one pass of the thread does so whenever the accumulator after the addition of the
  elapsed time is below \<open>2 ^ 22\<close> seconds. If the game state is \<open>KERNEL_RUNNING\<close> before
  each of these iterations and after the last, and the speed after each of them is \<open>s\<close>,
  the distance is the result of adding the binary32 product of \<open>s\<close> and the step to it
  \<open>\<lfloor>T / dt\<rfloor>\<close> times in binary32.
\<close>

theorem accumulator_steps:
  "(0 < dt \<and> 0 \<le> T \<and> - 1074 \<le> k \<and> on_grid k dt \<and> on_grid k T \<and> T < 2 ^ 53 * 2 powi k \<longrightarrow>
      physics_loop dt T w =
        Some (T - of_int \<lfloor>T / dt\<rfloor> * dt, (physics_iteration dt ^^ nat \<lfloor>T / dt\<rfloor>) w) \<and>
      0 \<le> T - of_int \<lfloor>T / dt\<rfloor> * dt \<and> T - of_int \<lfloor>T / dt\<rfloor> * dt < dt)
   \<and> DELTA_T = 8947849 / 2 ^ 31
   \<and> (0 \<le> dadd acc elapsed \<and> dadd acc elapsed < 2 ^ 22 \<longrightarrow>
      PhysicsThreadProc_pass elapsed (acc, w) =
        Some (dadd acc elapsed - of_int \<lfloor>dadd acc elapsed / DELTA_T\<rfloor> * DELTA_T,
              (physics_iteration DELTA_T ^^ nat \<lfloor>dadd acc elapsed / DELTA_T\<rfloor>) w))
   \<and> (0 < dt \<and> 0 \<le> T \<and> - 1074 \<le> k \<and> on_grid k dt \<and> on_grid k T \<and> T < 2 ^ 53 * 2 powi k \<and>
      (\<forall>j \<le> nat \<lfloor>T / dt\<rfloor>.
          currentState ((physics_iteration dt ^^ j) w) = KERNEL_RUNNING) \<and>
      (\<forall>j. 1 \<le> j \<and> j \<le> nat \<lfloor>T / dt\<rfloor> \<longrightarrow>
          fSpeed (player ((physics_iteration dt ^^ j) w)) = s)
      \<longrightarrow> (\<exists>w'. physics_loop dt T w = Some (T - of_int \<lfloor>T / dt\<rfloor> * dt, w') \<and>
                fDistance (player w') =
                  ((\<lambda>d. fadd d (fmul s (f32 dt))) ^^ nat \<lfloor>T / dt\<rfloor>) (fDistance (player w))))"
proof (intro conjI impI)
  assume h: "0 < dt \<and> 0 \<le> T \<and> - 1074 \<le> k \<and> on_grid k dt \<and> on_grid k T \<and>
    T < 2 ^ 53 * 2 powi k"
  then have a: "0 < dt" "0 \<le> T" "- 1074 \<le> k" "on_grid k dt" "on_grid k T"
    "T < 2 ^ 53 * 2 powi k" by simp_all
  show "physics_loop dt T w =
        Some (T - of_int \<lfloor>T / dt\<rfloor> * dt, (physics_iteration dt ^^ nat \<lfloor>T / dt\<rfloor>) w)"
    by (rule physics_loop_floor(1)[OF a])
  show "0 \<le> T - of_int \<lfloor>T / dt\<rfloor> * dt" by (rule physics_loop_floor(2)[OF a])
  show "T - of_int \<lfloor>T / dt\<rfloor> * dt < dt" by (rule physics_loop_floor(3)[OF a])
next
  show "DELTA_T = 8947849 / 2 ^ 31" by (simp add: KPT_vals)
next
  assume h: "0 \<le> dadd acc elapsed \<and> dadd acc elapsed < 2 ^ 22"
  have f: "is_f64 (dadd acc elapsed)" by (simp add: dadd_def)
  from h have b: "0 \<le> dadd acc elapsed" "dadd acc elapsed < 2 ^ 22" by simp_all
  show "PhysicsThreadProc_pass elapsed (acc, w) =
        Some (dadd acc elapsed - of_int \<lfloor>dadd acc elapsed / DELTA_T\<rfloor> * DELTA_T,
              (physics_iteration DELTA_T ^^ nat \<lfloor>dadd acc elapsed / DELTA_T\<rfloor>) w)"
    unfolding PhysicsThreadProc_pass_def prod.case
    by (rule physics_loop_double(1)[OF f b])
next
  assume h: "0 < dt \<and> 0 \<le> T \<and> - 1074 \<le> k \<and> on_grid k dt \<and> on_grid k T \<and>
      T < 2 ^ 53 * 2 powi k \<and>
      (\<forall>j \<le> nat \<lfloor>T / dt\<rfloor>.
          currentState ((physics_iteration dt ^^ j) w) = KERNEL_RUNNING) \<and>
      (\<forall>j. 1 \<le> j \<and> j \<le> nat \<lfloor>T / dt\<rfloor> \<longrightarrow>
          fSpeed (player ((physics_iteration dt ^^ j) w)) = s)"
  then have a: "0 < dt" "0 \<le> T" "- 1074 \<le> k" "on_grid k dt" "on_grid k T"
    "T < 2 ^ 53 * 2 powi k" by simp_all
  have l: "physics_loop dt T w =
        Some (T - of_int \<lfloor>T / dt\<rfloor> * dt, (physics_iteration dt ^^ nat \<lfloor>T / dt\<rfloor>) w)"
    by (rule physics_loop_floor(1)[OF a])
  have d: "fDistance (player ((physics_iteration dt ^^ nat \<lfloor>T / dt\<rfloor>) w)) =
      ((\<lambda>d. fadd d (fmul s (f32 dt))) ^^ nat \<lfloor>T / dt\<rfloor>) (fDistance (player w))"
    using h by (intro constant_speed_distance) blast+
  show "\<exists>w'. physics_loop dt T w = Some (T - of_int \<lfloor>T / dt\<rfloor> * dt, w') \<and>
                fDistance (player w') =
                  ((\<lambda>d. fadd d (fmul s (f32 dt))) ^^ nat \<lfloor>T / dt\<rfloor>) (fDistance (player w))"
    using l d by simp
qed

theorem accumulator_steps_witness:
  "(0::real) < DELTA_T \<and> 0 \<le> f64 0.009 \<and>
   on_grid (- 59) DELTA_T \<and> on_grid (- 59) (f64 0.009) \<and> f64 0.009 < 2 ^ 53 * 2 powi (- 59) \<and>
   \<lfloor>f64 0.009 / DELTA_T\<rfloor> = 2 \<and>
   currentState cruising = KERNEL_RUNNING \<and>
   currentState (physics_iteration DELTA_T cruising) = KERNEL_RUNNING \<and>
   currentState (physics_iteration DELTA_T (physics_iteration DELTA_T cruising)) =
     KERNEL_RUNNING \<and>
   fSpeed (player (physics_iteration DELTA_T cruising)) = 50 \<and>
   fSpeed (player (physics_iteration DELTA_T (physics_iteration DELTA_T cruising))) = 50 \<and>
   physics_loop DELTA_T (f64 0.009) cruising =
     Some (384306917662523 / 576460752303423488,
           physics_iteration DELTA_T (physics_iteration DELTA_T cruising)) \<and>
   dadd 0 (f64 0.009) = f64 0.009 \<and>
   PhysicsThreadProc_pass (f64 0.009) (0, cruising) =
     Some (384306917662523 / 576460752303423488,
           physics_iteration DELTA_T (physics_iteration DELTA_T cruising)) \<and>
   fDistance (player (physics_iteration DELTA_T (physics_iteration DELTA_T cruising))) =
     fadd (fadd (fDistance (player cruising)) (fmul 50 DELTA_T)) (fmul 50 DELTA_T) \<and>
   fDistance (player (physics_iteration DELTA_T (physics_iteration DELTA_T cruising))) =
     6580907 / 65536"
proof -
  let ?T = "f64 0.009"
  have T: "?T = 5188146770730811 / 576460752303423488"
    by (simp add: fl_eval)
  have i1: "physics_iteration DELTA_T cruising =
     cruising\<lparr>player := (player cruising)\<lparr>fX_Register := - (13743895 / 549755813888),
       fDistance := 13134507 / 131072, fCurvature := 1006633 / 134217728,
       fPlayerCurvature := 8589935 / 549755813888\<rparr>\<rparr>"
    by (rule cruising_step)
  have i2: "physics_iteration DELTA_T (physics_iteration DELTA_T cruising) =
     cruising\<lparr>player := (player cruising)\<lparr>fX_Register := - (10264973 / 137438953472),
       fDistance := 6580907 / 65536, fCurvature := 8002733 / 536870912,
       fPlayerCurvature := 801951 / 17179869184\<rparr>\<rparr>"
    unfolding i1 by (rule cruising_step2)
  have fl: "\<lfloor>?T / DELTA_T\<rfloor> = 2" unfolding T by (simp add: KPT_vals)
  have pos: "(0::real) < DELTA_T" "0 \<le> ?T" unfolding T by (simp_all add: KPT_vals)
  have grid: "- 1074 \<le> (- 59 :: int)" "on_grid (- 59) DELTA_T" "on_grid (- 59) ?T"
    "?T < 2 ^ 53 * 2 powi (- 59)"
    unfolding T by (simp_all add: KPT_vals on_grid_def)
  have st: "currentState cruising = KERNEL_RUNNING" "fSpeed (player cruising) = 50"
    "fDistance (player cruising) = 100"
    by (simp_all add: cruising_def build_defs Let_def)
  have c: "currentState (physics_iteration DELTA_T cruising) = KERNEL_RUNNING"
    "currentState (physics_iteration DELTA_T (physics_iteration DELTA_T cruising)) =
       KERNEL_RUNNING"
    "fSpeed (player (physics_iteration DELTA_T cruising)) = 50"
    "fSpeed (player (physics_iteration DELTA_T (physics_iteration DELTA_T cruising))) = 50"
    "fDistance (player (physics_iteration DELTA_T (physics_iteration DELTA_T cruising))) =
       6580907 / 65536"
    unfolding i2 unfolding i1 by (simp_all add: st)
  have run: "\<forall>j \<le> nat \<lfloor>?T / DELTA_T\<rfloor>.
      currentState ((physics_iteration DELTA_T ^^ j) cruising) = KERNEL_RUNNING"
    unfolding fl by (auto simp: le_Suc_eq numeral_2_eq_2 c st)
  have spd: "\<forall>j. 1 \<le> j \<and> j \<le> nat \<lfloor>?T / DELTA_T\<rfloor> \<longrightarrow>
      fSpeed (player ((physics_iteration DELTA_T ^^ j) cruising)) = 50"
    unfolding fl by (auto simp: le_Suc_eq numeral_2_eq_2 c st)
  note inst = accumulator_steps [of DELTA_T ?T "- 59" cruising 0 ?T 50]
  have loop: "physics_loop DELTA_T ?T cruising =
      Some (?T - of_int \<lfloor>?T / DELTA_T\<rfloor> * DELTA_T,
        (physics_iteration DELTA_T ^^ nat \<lfloor>?T / DELTA_T\<rfloor>) cruising)"
    using inst pos grid by blast
  have "\<exists>w'. physics_loop DELTA_T ?T cruising =
        Some (?T - of_int \<lfloor>?T / DELTA_T\<rfloor> * DELTA_T, w') \<and>
      fDistance (player w') =
        ((\<lambda>d. fadd d (fmul 50 (f32 DELTA_T))) ^^ nat \<lfloor>?T / DELTA_T\<rfloor>)
          (fDistance (player cruising))"
    using inst pos grid run spd by blast
  then have dist: "fDistance (player ((physics_iteration DELTA_T ^^ nat \<lfloor>?T / DELTA_T\<rfloor>) cruising)) =
        ((\<lambda>d. fadd d (fmul 50 (f32 DELTA_T))) ^^ nat \<lfloor>?T / DELTA_T\<rfloor>)
          (fDistance (player cruising))"
    unfolding loop by auto
  have two: "(physics_iteration DELTA_T ^^ nat \<lfloor>?T / DELTA_T\<rfloor>) cruising =
      physics_iteration DELTA_T (physics_iteration DELTA_T cruising)"
    unfolding fl by (simp add: numeral_2_eq_2)
  have two': "((\<lambda>d. fadd d (fmul 50 (f32 DELTA_T))) ^^ nat \<lfloor>?T / DELTA_T\<rfloor>)
      (fDistance (player cruising)) =
      fadd (fadd (fDistance (player cruising)) (fmul 50 DELTA_T)) (fmul 50 DELTA_T)"
    unfolding fl f32_DELTA_T by (simp add: numeral_2_eq_2)
  have res: "?T - of_int \<lfloor>?T / DELTA_T\<rfloor> * DELTA_T = 384306917662523 / 576460752303423488"
    unfolding fl T by (simp add: KPT_vals)
  have a: "physics_loop DELTA_T ?T cruising =
     Some (384306917662523 / 576460752303423488,
       physics_iteration DELTA_T (physics_iteration DELTA_T cruising))"
    using loop unfolding two res .
  have z: "dadd 0 ?T = ?T" by (simp add: dadd_def)
  have lt: "?T < 2 ^ 22" unfolding T by simp
  have zb: "0 \<le> dadd 0 ?T \<and> dadd 0 ?T < 2 ^ 22" unfolding z using pos(2) lt by blast
  have "PhysicsThreadProc_pass ?T (0, cruising) =
        Some (dadd 0 ?T - of_int \<lfloor>dadd 0 ?T / DELTA_T\<rfloor> * DELTA_T,
              (physics_iteration DELTA_T ^^ nat \<lfloor>dadd 0 ?T / DELTA_T\<rfloor>) cruising)"
    using inst zb by blast
  then have p: "PhysicsThreadProc_pass ?T (0, cruising) =
     Some (384306917662523 / 576460752303423488,
       physics_iteration DELTA_T (physics_iteration DELTA_T cruising))"
    unfolding z two res .
  have b: "fDistance (player (physics_iteration DELTA_T (physics_iteration DELTA_T cruising))) =
     fadd (fadd (fDistance (player cruising)) (fmul 50 DELTA_T)) (fmul 50 DELTA_T)"
    using dist unfolding two two' .
  show ?thesis using pos grid fl st(1) c a z p b by blast
qed

text \<open>
  C6. For each of the six edge flags and for the escape flag: take any schedule of
  sampler iterations and consumer exchanges, started with the flag clear, in which the
  sampler records exactly one rising edge of the key (for escape: reads the pressed bit
  exactly once), and any exchange of that flag that comes after the edge was recorded,
  however many sampler iterations lie in between. Then over the whole schedule the
  consumer sees \<open>true\<close> exactly once. Without such an exchange nothing is lost: the times
  the consumer saw \<open>true\<close> and the flag still pending add up to one.
\<close>

theorem edge_flag_observed_exactly_once:
  "(\<not> input_edge s k \<and>
    rising_edges (lastKey s k) (key_trace k pre) = 1 \<and>
    rising_edges (lastKey s k) (key_trace k (pre @ post)) = 1
    \<longrightarrow> count_list (observations (pre @ Exchange (Edge k) # post) s) (Edge k, True) = 1)
   \<and> (\<not> input_escape s \<and>
      count_list (escape_trace pre) True = 1 \<and>
      count_list (escape_trace (pre @ post)) True = 1
      \<longrightarrow> count_list (observations (pre @ Exchange Escape # post) s) (Escape, True) = 1)
   \<and> (\<not> input_edge s k \<and> rising_edges (lastKey s k) (key_trace k evs) = 1
      \<longrightarrow> count_list (observations evs s) (Edge k, True)
             + (if input_edge (final evs s) k then 1 else 0) = 1)"
proof (intro conjI impI)
  assume h: "\<not> input_edge s k \<and>
    rising_edges (lastKey s k) (key_trace k pre) = 1 \<and>
    rising_edges (lastKey s k) (key_trace k (pre @ post)) = 1"
  have kt: "key_trace k (pre @ Exchange (Edge k) # post) = key_trace k (pre @ post)"
    by (simp add: key_trace_append)
  show "count_list (observations (pre @ Exchange (Edge k) # post) s) (Edge k, True) = 1"
    using h by (intro exactly_once) (simp_all add: stores_edge kt)
next
  assume h: "\<not> input_escape s \<and>
      count_list (escape_trace pre) True = 1 \<and>
      count_list (escape_trace (pre @ post)) True = 1"
  have et: "escape_trace (pre @ Exchange Escape # post) = escape_trace (pre @ post)"
    by (simp add: escape_trace_append)
  show "count_list (observations (pre @ Exchange Escape # post) s) (Escape, True) = 1"
    using h by (intro exactly_once) (simp_all add: stores_escape et)
next
  assume h: "\<not> input_edge s k \<and> rising_edges (lastKey s k) (key_trace k evs) = 1"
  then show "count_list (observations evs s) (Edge k, True)
             + (if input_edge (final evs s) k then 1 else 0) = 1"
    using one_store[of s "Edge k" evs] by (simp add: stores_edge)
qed

theorem edge_flag_observed_exactly_once_witness:
  "\<not> input_edge registers_boot VK_SPACE \<and>
   rising_edges (lastKey registers_boot VK_SPACE) (key_trace VK_SPACE space_schedule_pre) = 1 \<and>
   rising_edges (lastKey registers_boot VK_SPACE)
     (key_trace VK_SPACE (space_schedule_pre @ space_schedule_post)) = 1 \<and>
   \<not> input_escape registers_boot \<and>
   count_list (escape_trace space_schedule_pre) True = 1 \<and>
   count_list (escape_trace (space_schedule_pre @ space_schedule_post)) True = 1 \<and>
   observations (space_schedule_pre @ Exchange (Edge VK_SPACE) # space_schedule_post)
     registers_boot =
     [(Edge VK_SPACE, False), (Edge VK_SPACE, True), (Edge VK_SPACE, False),
      (Escape, True), (Escape, False)] \<and>
   count_list (observations (space_schedule_pre @ Exchange (Edge VK_SPACE) # space_schedule_post)
     registers_boot) (Edge VK_SPACE, True) = 1 \<and>
   count_list (observations (space_schedule_pre @ Exchange Escape # space_schedule_post)
     registers_boot) (Escape, True) = 1"
proof -
  have a: "\<not> input_edge registers_boot VK_SPACE \<and>
    rising_edges (lastKey registers_boot VK_SPACE) (key_trace VK_SPACE space_schedule_pre) = 1 \<and>
    rising_edges (lastKey registers_boot VK_SPACE)
      (key_trace VK_SPACE (space_schedule_pre @ space_schedule_post)) = 1"
    by (simp add: schedule_defs)
  have b: "\<not> input_escape registers_boot \<and>
    count_list (escape_trace space_schedule_pre) True = 1 \<and>
    count_list (escape_trace (space_schedule_pre @ space_schedule_post)) True = 1"
    by (simp add: schedule_defs)
  note inst = edge_flag_observed_exactly_once
    [of registers_boot VK_SPACE space_schedule_pre space_schedule_post "[]"]
  have c: "count_list (observations
      (space_schedule_pre @ Exchange (Edge VK_SPACE) # space_schedule_post)
      registers_boot) (Edge VK_SPACE, True) = 1"
    using inst a by blast
  have d: "count_list (observations (space_schedule_pre @ Exchange Escape # space_schedule_post)
     registers_boot) (Escape, True) = 1"
    using inst b by blast
  have e: "observations (space_schedule_pre @ Exchange (Edge VK_SPACE) # space_schedule_post)
     registers_boot =
     [(Edge VK_SPACE, False), (Edge VK_SPACE, True), (Edge VK_SPACE, False),
      (Escape, True), (Escape, False)]"
    by (simp add: schedule_defs observe.simps step.simps InputThreadProc_edges_fields)
  show ?thesis using a b c d e by blast
qed

text \<open>
  C8. For every track and every distance the cursor of the collision detector and the
  cursor of the integrator return the same segment index and the same offset inside the
  segment. The result is the one of the linear scan: the offset is the distance less the
  lengths of the segments before the index, subtracted one after the other in binary32,
  every segment passed was no longer than the offset left at it, and the segment at the
  index, when there is one, is longer than the offset.
\<close>

theorem segment_cursors_agree:
  "physics_cursor t d 0 =
     (case collision_cursor t d 0 0 of (pos, fSegStartDistance, sec) \<Rightarrow> (pos, sec))
   \<and> (case physics_cursor t d 0 of
        (pos, sec) \<Rightarrow>
          sec \<le> length t \<and>
          pos = foldl fsub d (map fDistance_seg (take sec t)) \<and>
          (sec < length t \<longrightarrow> pos < fDistance_seg (t ! sec)) \<and>
          (\<forall>k < sec. fDistance_seg (t ! k) \<le> foldl fsub d (map fDistance_seg (take k t))))"
proof -
  obtain p s n where c: "collision_cursor t d 0 0 = (p, s, n)"
    by (cases "collision_cursor t d 0 0") auto
  have a: "physics_cursor t d 0 = (p, n)"
    using cursors_agree_from[of t d 0 0] c by simp
  from collision_cursor_scan[OF c] show ?thesis
    by (auto simp: a c)
qed

theorem segment_cursors_agree_witness:
  "physics_cursor (BuildTrackData 2) 420 0 = (20, 3) \<and>
   collision_cursor (BuildTrackData 2) 420 0 0 = (20, 400, 3) \<and>
   (3::nat) < length (BuildTrackData 2) \<and>
   (20::real) < fDistance_seg (BuildTrackData 2 ! 3)"
  using segment_cursors_agree [of "BuildTrackData 2" 420]
  by (simp add: build_defs physics_cursor.simps collision_cursor.simps fl_eval)

text \<open>
  C9. The boundary check has no game-state guard. In every iteration of the physics
  thread, whatever the game state, a vehicle that is not crashed and has
  \<open>x - 0.18 \<le> -1\<close> or \<open>x + 0.18 \<ge> 1\<close> when the check runs (after the integration
  block, which changes nothing outside \<open>KERNEL_RUNNING\<close>) ends the iteration crashed, at
  speed \<open>0\<close>, in \<open>GAME_OVER\<close>, with the crash and game-over signals raised. Outside
  \<open>KERNEL_RUNNING\<close> that is the vehicle as it was before the iteration. The check
  itself gives the same crash for every game state \<open>s\<close>. The binary32 half width is not
  below \<open>0.18\<close> and the rounding of a sum does not cross \<open>1\<close> or \<open>-1\<close>, so the test of
  the code holds whenever the one on the reals does.
\<close>

theorem boundary_check_in_every_state:
  "(\<not> bCrashed (player (physics_integrate dt w)) \<and>
    (fX_Register (player (physics_integrate dt w)) - 0.18 \<le> - 1 \<or>
     fX_Register (player (physics_integrate dt w)) + 0.18 \<ge> 1) \<longrightarrow>
      bCrashed (player (physics_iteration dt w)) \<and>
      fSpeed (player (physics_iteration dt w)) = 0 \<and>
      currentState (physics_iteration dt w) = GAME_OVER \<and>
      sound_crash (physics_iteration dt w) \<and> sound_gameover (physics_iteration dt w))
   \<and> (currentState w \<noteq> KERNEL_RUNNING \<longrightarrow> physics_integrate dt w = w)
   \<and> (currentState w \<noteq> KERNEL_RUNNING \<and> \<not> bCrashed (player w) \<and>
       (fX_Register (player w) - 0.18 \<le> - 1 \<or> fX_Register (player w) + 0.18 \<ge> 1) \<longrightarrow>
        bCrashed (player (physics_iteration dt w)) \<and>
        fSpeed (player (physics_iteration dt w)) = 0 \<and>
        currentState (physics_iteration dt w) = GAME_OVER \<and>
        sound_crash (physics_iteration dt w) \<and> sound_gameover (physics_iteration dt w))
   \<and> (\<not> bCrashed (player w) \<and>
       (fX_Register (player w) - 0.18 \<le> - 1 \<or> fX_Register (player w) + 0.18 \<ge> 1) \<longrightarrow>
        EnforceBoundaryProtection (w\<lparr>currentState := s\<rparr>) =
          w\<lparr>player := (player w)\<lparr>bCrashed := True, fSpeed := 0\<rparr>,
            currentState := GAME_OVER, sound_crash := True, sound_gameover := True\<rparr>)"
proof (intro conjI impI)
  let ?c = "physics_integrate dt w"
  assume h: "\<not> bCrashed (player ?c) \<and>
    (fX_Register (player ?c) - 0.18 \<le> - 1 \<or> fX_Register (player ?c) + 0.18 \<ge> 1)"
  then have "fsub (fX_Register (player ?c)) PLAYER_HALF_WIDTH \<le> - 1 \<or>
             fadd (fX_Register (player ?c)) PLAYER_HALF_WIDTH \<ge> 1"
    by (intro off_road_real) simp
  with h have b: "EnforceBoundaryProtection ?c = crash ?c"
    by (simp add: boundary_check_iff)
  have o: "CheckObstacleCollision (crash ?c) = crash ?c"
    by (simp add: CheckObstacleCollision_def)
  show "bCrashed (player (physics_iteration dt w))"
    "fSpeed (player (physics_iteration dt w)) = 0"
    "currentState (physics_iteration dt w) = GAME_OVER"
    "sound_crash (physics_iteration dt w)" "sound_gameover (physics_iteration dt w)"
    by (simp_all add: physics_iteration_def b o)
next
  assume "currentState w \<noteq> KERNEL_RUNNING"
  then show "physics_integrate dt w = w" by (rule physics_integrate_idle)
next
  assume h: "currentState w \<noteq> KERNEL_RUNNING \<and> \<not> bCrashed (player w) \<and>
       (fX_Register (player w) - 0.18 \<le> - 1 \<or> fX_Register (player w) + 0.18 \<ge> 1)"
  then have i: "physics_integrate dt w = w" by (simp add: physics_integrate_idle)
  from h have "fsub (fX_Register (player w)) PLAYER_HALF_WIDTH \<le> - 1 \<or>
             fadd (fX_Register (player w)) PLAYER_HALF_WIDTH \<ge> 1"
    by (intro off_road_real) simp
  with h have b: "EnforceBoundaryProtection w = crash w"
    by (simp add: boundary_check_iff)
  have o: "CheckObstacleCollision (crash w) = crash w"
    by (simp add: CheckObstacleCollision_def)
  show "bCrashed (player (physics_iteration dt w))"
    "fSpeed (player (physics_iteration dt w)) = 0"
    "currentState (physics_iteration dt w) = GAME_OVER"
    "sound_crash (physics_iteration dt w)" "sound_gameover (physics_iteration dt w)"
    by (simp_all add: physics_iteration_def i b o)
next
  assume h: "\<not> bCrashed (player w) \<and>
       (fX_Register (player w) - 0.18 \<le> - 1 \<or> fX_Register (player w) + 0.18 \<ge> 1)"
  then have "fsub (fX_Register (player w)) PLAYER_HALF_WIDTH \<le> - 1 \<or>
             fadd (fX_Register (player w)) PLAYER_HALF_WIDTH \<ge> 1"
    by (intro off_road_real) simp
  with h show "EnforceBoundaryProtection (w\<lparr>currentState := s\<rparr>) =
          w\<lparr>player := (player w)\<lparr>bCrashed := True, fSpeed := 0\<rparr>,
            currentState := GAME_OVER, sound_crash := True, sound_gameover := True\<rparr>"
    by (simp add: boundary_check_iff crash_def)
qed

theorem boundary_check_in_every_state_witness:
  "currentState (won_at (f32 0.9)) = GAME_WIN \<and>
   \<not> bCrashed (player (won_at (f32 0.9))) \<and>
   fX_Register (player (won_at (f32 0.9))) + 0.18 \<ge> 1 \<and>
   physics_integrate DELTA_T (won_at (f32 0.9)) = won_at (f32 0.9) \<and>
   currentState (physics_iteration DELTA_T (won_at (f32 0.9))) = GAME_OVER \<and>
   bCrashed (player (physics_iteration DELTA_T (won_at (f32 0.9)))) \<and>
   sound_crash (physics_iteration DELTA_T (won_at (f32 0.9))) \<and>
   sound_gameover (physics_iteration DELTA_T (won_at (f32 0.9)))"
proof -
  let ?w = "won_at (f32 0.9)"
  have g: "currentState ?w = GAME_WIN"
    by (simp add: won_at_def)
  then have s: "currentState ?w \<noteq> KERNEL_RUNNING" by simp
  have x: "\<not> bCrashed (player ?w)" "fX_Register (player ?w) + 0.18 \<ge> 1"
    by (simp_all add: won_at_def build_defs Let_def fl_eval)
  note inst = boundary_check_in_every_state [of DELTA_T ?w GAME_WIN]
  have i: "physics_integrate DELTA_T ?w = ?w"
    using inst s by blast
  have r: "bCrashed (player (physics_iteration DELTA_T ?w)) \<and>
      fSpeed (player (physics_iteration DELTA_T ?w)) = 0 \<and>
      currentState (physics_iteration DELTA_T ?w) = GAME_OVER \<and>
      sound_crash (physics_iteration DELTA_T ?w) \<and>
      sound_gameover (physics_iteration DELTA_T ?w)"
    using inst s x by blast
  show ?thesis using g x i r by blast
qed





end
